theory Spec2Isabelle
  imports Main "HOL-Library.Word" "HOL-Library.Sublist"
begin

section \<open>Strings of the runtime\<close>

text \<open>
  A JavaScript string is a sequence of UTF-16 code units; \<open>length\<close>, \<open>slice\<close>,
  \<open>substring\<close>, \<open>indexOf\<close> and the regular expressions of this repository (none has
  the \<open>u\<close> flag) all work on code units. A string is therefore a list of 16-bit words.
  \<open>str\<close> writes an ASCII literal of the source as such a list.
\<close>

type_synonym jschar = "16 word"
type_synonym jsstring = "jschar list"

definition str :: "string \<Rightarrow> jsstring" where
  "str s = map of_char s"

text \<open>The productions LineTerminator and WhiteSpace of ECMAScript; \<open>\s\<close> and
  \<open>trim\<close> use their union, \<open>.\<close> and a multiline \<open>$\<close> use the first.\<close>

definition isLineTerminator :: "jschar \<Rightarrow> bool" where
  "isLineTerminator c = (c = 0x0A \<or> c = 0x0D \<or> c = 0x2028 \<or> c = 0x2029)"

definition isWhiteSpace :: "jschar \<Rightarrow> bool" where
  "isWhiteSpace c =
     (c = 0x09 \<or> c = 0x0B \<or> c = 0x0C \<or> c = 0x20 \<or> c = 0xA0 \<or> c = 0x1680
      \<or> (0x2000 \<le> c \<and> c \<le> 0x200A) \<or> c = 0x202F \<or> c = 0x205F \<or> c = 0x3000
      \<or> c = 0xFEFF \<or> isLineTerminator c)"

definition isDot :: "jschar \<Rightarrow> bool" where
  "isDot c = (\<not> isLineTerminator c)"

text \<open>The class \<open>[a-zA-Z0-9_-]\<close> of both marker patterns.\<close>

definition isIdChar :: "jschar \<Rightarrow> bool" where
  "isIdChar c =
     ((0x61 \<le> c \<and> c \<le> 0x7A) \<or> (0x41 \<le> c \<and> c \<le> 0x5A) \<or> (0x30 \<le> c \<and> c \<le> 0x39)
      \<or> c = 0x5F \<or> c = 0x2D)"

definition trimStart :: "jsstring \<Rightarrow> jsstring" where
  "trimStart s = dropWhile isWhiteSpace s"

definition trimEnd :: "jsstring \<Rightarrow> jsstring" where
  "trimEnd s = rev (dropWhile isWhiteSpace (rev s))"

definition trim :: "jsstring \<Rightarrow> jsstring" where
  "trim s = trimEnd (trimStart s)"

definition startsWith :: "jsstring \<Rightarrow> jsstring \<Rightarrow> bool" where
  "startsWith s p = (take (length p) s = p)"

definition endsWith :: "jsstring \<Rightarrow> jsstring \<Rightarrow> bool" where
  "endsWith s p = (length p \<le> length s \<and> drop (length s - length p) s = p)"

text \<open>\<open>s.indexOf(p)\<close>: the first index at which \<open>p\<close> occurs, \<open>None\<close> for \<open>-1\<close>.\<close>

fun indexOf :: "jsstring \<Rightarrow> jsstring \<Rightarrow> nat option" where
  "indexOf [] p = (if p = [] then Some 0 else None)"
| "indexOf (c # cs) p =
     (if startsWith (c # cs) p then Some 0 else map_option Suc (indexOf cs p))"

text \<open>\<open>s.lastIndexOf(c)\<close> for a one-unit string \<open>c\<close>, \<open>None\<close> for \<open>-1\<close>.\<close>

fun lastIndexOf :: "jsstring \<Rightarrow> jschar \<Rightarrow> nat option" where
  "lastIndexOf [] c = None"
| "lastIndexOf (x # xs) c =
     (case lastIndexOf xs c of
        Some i \<Rightarrow> Some (Suc i)
      | None \<Rightarrow> (if x = c then Some 0 else None))"

text \<open>\<open>s.split(sep)\<close> for a one-unit separator: always at least one piece.\<close>

fun split :: "jsstring \<Rightarrow> jschar \<Rightarrow> jsstring list" where
  "split [] sep = [[]]"
| "split (c # cs) sep =
     (if c = sep then [] # split cs sep
      else (case split cs sep of
              p # ps \<Rightarrow> (c # p) # ps
            | [] \<Rightarrow> [[c]]))"

fun join :: "jsstring list \<Rightarrow> jsstring \<Rightarrow> jsstring" where
  "join [] sep = []"
| "join [p] sep = p"
| "join (p # q # ps) sep = p @ sep @ join (q # ps) sep"

definition LF :: jschar where
  "LF = 0x0A"

text \<open>Decimal rendering of a count, as a template literal renders a non-negative
  integral number below \<open>10^21\<close>, which a count of array elements always is.\<close>

fun showNat :: "nat \<Rightarrow> jsstring" where
  "showNat n =
     (if n < 10 then [of_nat (48 + n)]
      else showNat (n div 10) @ [of_nat (48 + n mod 10)])"

declare showNat.simps [simp del]

section \<open>Regular expressions\<close>

text \<open>
  The fragment of ECMAScript regular expressions that the repository uses: literal text,
  a greedy repetition of a character class with a minimum count (\<open>\s*\<close>, \<open>\s+\<close>,
  \<open>[a-zA-Z0-9_-]+\<close>, \<open>.+\<close>), sequence, alternation, numbered capture groups, \<open>^\<close>
  without the \<open>m\<close> flag and \<open>$\<close> with or without it. Matching is the backtracking
  search of the language: a repetition first takes as many units as it can and gives them
  back one at a time while the rest of the pattern fails; an alternation tries its
  branches from left to right.
\<close>

datatype regex =
    Lit jsstring
  | Rep "jschar \<Rightarrow> bool" nat
  | Seq regex regex
  | Alt regex regex
  | Grp nat regex
  | Bol
  | Eol bool

type_synonym captures = "nat \<Rightarrow> jsstring option"

text \<open>\<open>greedy n lo f\<close> tries the counts \<open>n, n - 1, \<dots>, lo\<close> in this order.\<close>

primrec greedy :: "nat \<Rightarrow> nat \<Rightarrow> (nat \<Rightarrow> 'r option) \<Rightarrow> 'r option" where
  "greedy 0 lo f = (if lo = 0 then f 0 else None)"
| "greedy (Suc n) lo f =
     (if Suc n < lo then None
      else (case f (Suc n) of Some r \<Rightarrow> Some r | None \<Rightarrow> greedy n lo f))"

text \<open>The matcher, in continuation-passing style. The state is the index reached and the
  rest of the input from there.\<close>

fun rmatch ::
  "regex \<Rightarrow> nat \<times> jsstring \<Rightarrow> captures \<Rightarrow>
   (nat \<times> jsstring \<Rightarrow> captures \<Rightarrow> 'r option) \<Rightarrow> 'r option" where
  "rmatch (Lit l) (i, s) c k =
     (if startsWith s l then k (i + length l, drop (length l) s) c else None)"
| "rmatch (Rep P lo) (i, s) c k =
     greedy (length (takeWhile P s)) lo (\<lambda>j. k (i + j, drop j s) c)"
| "rmatch (Seq a b) st c k = rmatch a st c (\<lambda>st' c'. rmatch b st' c' k)"
| "rmatch (Alt a b) st c k =
     (case rmatch a st c k of Some r \<Rightarrow> Some r | None \<Rightarrow> rmatch b st c k)"
| "rmatch (Grp g a) (i, s) c k =
     rmatch a (i, s) c (\<lambda>st' c'. k st' (c'(g \<mapsto> take (fst st' - i) s)))"
| "rmatch Bol (i, s) c k = (if i = 0 then k (i, s) c else None)"
| "rmatch (Eol multiline) (i, s) c k =
     (if s = [] \<or> (multiline \<and> isLineTerminator (hd s)) then k (i, s) c else None)"

fun seqs :: "regex list \<Rightarrow> regex" where
  "seqs [] = Lit []"
| "seqs [r] = r"
| "seqs (r # q # rs) = Seq r (seqs (q # rs))"

text \<open>One attempt at the current index: the state after the match and the captures.\<close>

definition matchHere :: "regex \<Rightarrow> nat \<times> jsstring \<Rightarrow> ((nat \<times> jsstring) \<times> captures) option" where
  "matchHere r st = rmatch r st (\<lambda>_. None) (\<lambda>st' c'. Some (st', c'))"

text \<open>\<open>s.match(r)\<close> for a pattern without the \<open>g\<close> flag: the leftmost index at which
  the pattern matches decides; the result is the captures of that match.\<close>

fun searchFrom :: "regex \<Rightarrow> nat \<Rightarrow> jsstring \<Rightarrow> captures option" where
  "searchFrom r i [] = map_option snd (matchHere r (i, []))"
| "searchFrom r i (x # xs) =
     (case matchHere r (i, x # xs) of
        Some m \<Rightarrow> Some (snd m)
      | None \<Rightarrow> searchFrom r (Suc i) xs)"

definition js_match :: "jsstring \<Rightarrow> regex \<Rightarrow> captures option" where
  "js_match s r = searchFrom r 0 s"

text \<open>\<open>s.replace(r, rep)\<close> for a pattern with the \<open>g\<close> flag and a replacement without
  \<open>$\<close>: every match, found from left to right, is replaced; after an empty match the
  search resumes one unit further and that unit is kept.\<close>

function replaceFrom :: "regex \<Rightarrow> jsstring \<Rightarrow> nat \<Rightarrow> jsstring \<Rightarrow> jsstring" where
  "replaceFrom r rep i s =
     (case matchHere r (i, s) of
        Some ((i', s'), _) \<Rightarrow>
          if length s' < length s then rep @ replaceFrom r rep i' s'
          else (case s of [] \<Rightarrow> rep | x # xs \<Rightarrow> rep @ x # replaceFrom r rep (Suc i) xs)
      | None \<Rightarrow> (case s of [] \<Rightarrow> [] | x # xs \<Rightarrow> x # replaceFrom r rep (Suc i) xs))"
  by pat_completeness auto
termination
  by (relation "measure (\<lambda>(r, rep, i, s). length s)") auto

declare replaceFrom.simps [simp del]

definition replaceAll :: "jsstring \<Rightarrow> regex \<Rightarrow> jsstring \<Rightarrow> jsstring" where
  "replaceAll s r rep = replaceFrom r rep 0 s"

section \<open>Branch names (pr-impact/detect.ts)\<close>

text \<open>\<open>/^spectr\/(proposal|archive|remove)\/(.+)$/\<close>\<close>

definition SPECTR_BRANCH_PATTERN :: regex where
  "SPECTR_BRANCH_PATTERN =
     seqs [Bol, Lit (str ''spectr/''),
           Grp 1 (Alt (Lit (str ''proposal'')) (Alt (Lit (str ''archive'')) (Lit (str ''remove'')))),
           Lit (str ''/''), Grp 2 (Rep isDot 1), Eol False]"

text \<open>The result object; \<open>mode\<close> is the text of the first group (the cast to the
  mode type is unchecked in the source).\<close>

record branch_info =
  bi_isSpectrBranch :: bool
  bi_mode :: "jsstring option"
  bi_changeId :: "jsstring option"

definition parseSpectrBranch :: "jsstring \<Rightarrow> branch_info" where
  "parseSpectrBranch branchName =
     (case js_match branchName SPECTR_BRANCH_PATTERN of
        None \<Rightarrow> \<lparr>bi_isSpectrBranch = False, bi_mode = None, bi_changeId = None\<rparr>
      | Some m \<Rightarrow> \<lparr>bi_isSpectrBranch = True, bi_mode = m 1, bi_changeId = m 2\<rparr>)"

section \<open>Issue markers and data (issues/types.ts)\<close>

record IssueSyncConfig =
  cfg_enabled :: bool
  cfg_labels :: "jsstring list"
  cfg_titlePrefix :: jsstring
  cfg_closeOnArchive :: bool
  cfg_updateExisting :: bool
  cfg_spectrLabel :: jsstring
  cfg_githubToken :: jsstring

record ChangeProposal =
  cp_id :: jsstring
  cp_path :: jsstring
  cp_proposalContent :: jsstring
  cp_tasksContent :: "jsstring option"
  cp_affectedSpecs :: "jsstring list"
  cp_isArchived :: bool

datatype issue_state = Open | Closed

record ManagedIssue =
  mi_number :: nat
  mi_changeId :: jsstring
  mi_state :: issue_state
  mi_title :: jsstring
  mi_body :: jsstring

text \<open>\<open>/<!--\s*spectr-change-id:([a-zA-Z0-9_-]+)\s*-->/\<close>\<close>

definition CHANGE_ID_MARKER_PATTERN :: regex where
  "CHANGE_ID_MARKER_PATTERN =
     seqs [Lit (str ''<!--''), Rep isWhiteSpace 0, Lit (str ''spectr-change-id:''),
           Grp 1 (Rep isIdChar 1), Rep isWhiteSpace 0, Lit (str ''-->'')]"

definition MAX_ISSUE_BODY_LENGTH :: nat where
  "MAX_ISSUE_BODY_LENGTH = 65536"

definition generateChangeIdMarker :: "jsstring \<Rightarrow> jsstring" where
  "generateChangeIdMarker changeId = str ''<!-- spectr-change-id:'' @ changeId @ str '' -->''"

definition extractChangeIdFromBody :: "jsstring \<Rightarrow> jsstring option" where
  "extractChangeIdFromBody body =
     (case js_match body CHANGE_ID_MARKER_PATTERN of None \<Rightarrow> None | Some m \<Rightarrow> m 1)"

section \<open>Issue titles and bodies (issues/format.ts)\<close>

definition TRUNCATION_NOTICE :: jsstring where
  "TRUNCATION_NOTICE =
     [LF, LF] @ str ''---'' @ [LF] @
     str ''*This content has been truncated due to GitHub issue size limits. See the full proposal in the repository.*''"

definition formatIssueTitle :: "jsstring \<Rightarrow> IssueSyncConfig \<Rightarrow> jsstring" where
  "formatIssueTitle changeId config = cfg_titlePrefix config @ str '' '' @ changeId"

text \<open>The threshold \<open>lastNewline > maxContentLength * 0.8\<close> is a comparison of an
  integer with a product of doubles. \<open>maxContentLength\<close> is \<open>65423\<close>, the product is
  \<open>52338.4\<close> up to rounding far below \<open>0.1\<close>, and so the comparison holds exactly when
  \<open>10 * lastNewline > 8 * maxContentLength\<close> holds in the integers; \<open>-1\<close> (no newline)
  never passes it.\<close>

definition truncateBody :: "jsstring \<Rightarrow> jsstring" where
  "truncateBody body =
     (if length body \<le> MAX_ISSUE_BODY_LENGTH then body
      else
        let maxContentLength = MAX_ISSUE_BODY_LENGTH - length TRUNCATION_NOTICE;
            truncatedBody = take maxContentLength body
        in (case lastIndexOf truncatedBody LF of
              Some lastNewline \<Rightarrow>
                if 10 * lastNewline > 8 * maxContentLength
                then take lastNewline truncatedBody @ TRUNCATION_NOTICE
                else truncatedBody @ TRUNCATION_NOTICE
            | None \<Rightarrow> truncatedBody @ TRUNCATION_NOTICE))"

text \<open>\<open>if (proposal.tasksContent)\<close>: an absent and an empty text are both falsy.\<close>

definition formatIssueBody :: "ChangeProposal \<Rightarrow> jsstring" where
  "formatIssueBody proposal =
     truncateBody (join
       ([generateChangeIdMarker (cp_id proposal), [],
         str ''## Proposal'', [],
         trim (cp_proposalContent proposal), []]
        @ (if length (cp_affectedSpecs proposal) > 0
           then [str ''## Affected Specs'', []]
                @ map (\<lambda>spec. str ''- `'' @ spec @ str ''`'') (cp_affectedSpecs proposal)
                @ [[]]
           else [])
        @ (case cp_tasksContent proposal of
             Some tasks \<Rightarrow>
               if tasks \<noteq> [] then [str ''## Tasks'', [], trim tasks, []] else []
           | None \<Rightarrow> [])
        @ [str ''---'',
           str ''*This issue is managed by [Spectr](https://github.com/connerohnesorge/spectr). Changes to the proposal will be reflected here automatically.*''])
       [LF])"

definition extractChangeId :: "jsstring \<Rightarrow> jsstring option" where
  "extractChangeId body =
     (case js_match body CHANGE_ID_MARKER_PATTERN of None \<Rightarrow> None | Some m \<Rightarrow> m 1)"

text \<open>\<open>s.replace(/\r\n/g, "\n").replace(/\s+$/gm, "").trim()\<close>\<close>

definition normalizeBody :: "jsstring \<Rightarrow> jsstring" where
  "normalizeBody s =
     trim (replaceAll (replaceAll s (Lit [0x0D, 0x0A]) [LF])
                      (Seq (Rep isWhiteSpace 1) (Eol True)) [])"

definition bodiesMatch :: "jsstring \<Rightarrow> jsstring \<Rightarrow> bool" where
  "bodiesMatch existing updated = (normalizeBody existing = normalizeBody updated)"

section \<open>Pull-request impact data (pr-impact/types.ts)\<close>

datatype PRMode = Proposal | Archive | Remove

fun modeText :: "PRMode \<Rightarrow> jsstring" where
  "modeText Proposal = str ''proposal''"
| "modeText Archive = str ''archive''"
| "modeText Remove = str ''remove''"

datatype operation = OpAdd | OpModify | OpRemove | OpRename

record SpecChange =
  sc_capabilityName :: jsstring
  sc_operation :: operation
  sc_requirementName :: jsstring
  sc_content :: "jsstring option"
  sc_oldName :: "jsstring option"

record OperationCounts =
  added :: nat
  modified :: nat
  removed :: nat
  renamed :: nat
  total :: nat

record SpecImpact =
  si_changeId :: jsstring
  si_mode :: PRMode
  si_isArchived :: bool
  si_capabilities :: "jsstring list"
  si_changes :: "SpecChange list"
  si_counts :: OperationCounts

text \<open>\<open>/<!--\s*spectr-pr-impact:([a-zA-Z0-9_-]+)\s*-->/\<close>\<close>

definition PR_IMPACT_MARKER_PATTERN :: regex where
  "PR_IMPACT_MARKER_PATTERN =
     seqs [Lit (str ''<!--''), Rep isWhiteSpace 0, Lit (str ''spectr-pr-impact:''),
           Grp 1 (Rep isIdChar 1), Rep isWhiteSpace 0, Lit (str ''-->'')]"

definition MAX_COMMENT_BODY_LENGTH :: nat where
  "MAX_COMMENT_BODY_LENGTH = 65536"

definition generatePRImpactMarker :: "jsstring \<Rightarrow> jsstring" where
  "generatePRImpactMarker changeId = str ''<!-- spectr-pr-impact:'' @ changeId @ str '' -->''"

definition extractChangeIdFromComment :: "jsstring \<Rightarrow> jsstring option" where
  "extractChangeIdFromComment body =
     (case js_match body PR_IMPACT_MARKER_PATTERN of None \<Rightarrow> None | Some m \<Rightarrow> m 1)"

section \<open>Pull-request comments (pr-impact/format.ts)\<close>

definition formatSummaryTable :: "OperationCounts \<Rightarrow> jsstring" where
  "formatSummaryTable counts =
     join [str ''| Operation | Count |'',
           str ''|-----------|-------|'',
           str ''| Added | '' @ showNat (added counts) @ str '' |'',
           str ''| Modified | '' @ showNat (modified counts) @ str '' |'',
           str ''| Removed | '' @ showNat (removed counts) @ str '' |'',
           str ''| Renamed | '' @ showNat (renamed counts) @ str '' |''] [LF]"

text \<open>\<open>toUpperCase\<close> is the case mapping of the language, a parameter here.\<close>

definition formatStatusTable :: "(jsstring \<Rightarrow> jsstring) \<Rightarrow> SpecImpact \<Rightarrow> jsstring" where
  "formatStatusTable toUpperCase impact =
     (let archiveStatus = (if si_isArchived impact then str ''Yes'' else str ''No'');
          modeDisplay = toUpperCase (take 1 (modeText (si_mode impact)))
                        @ drop 1 (modeText (si_mode impact))
      in join [str ''| Status | Value |'',
               str ''|--------|-------|'',
               str ''| Mode | '' @ modeDisplay @ str '' |'',
               str ''| Archived | '' @ archiveStatus @ str '' |''] [LF])"

text \<open>\<open>changeCounts.get(name) || 0\<close>\<close>

definition getOrZero :: "(jsstring \<rightharpoonup> nat) \<Rightarrow> jsstring \<Rightarrow> nat" where
  "getOrZero m k = (case m k of None \<Rightarrow> 0 | Some n \<Rightarrow> n)"

fun countChanges :: "SpecChange list \<Rightarrow> (jsstring \<rightharpoonup> nat) \<Rightarrow> (jsstring \<rightharpoonup> nat)" where
  "countChanges [] changeCounts = changeCounts"
| "countChanges (change # rest) changeCounts =
     countChanges rest
       (changeCounts(sc_capabilityName change \<mapsto>
          getOrZero changeCounts (sc_capabilityName change) + 1))"

definition plural :: "nat \<Rightarrow> jsstring" where
  "plural n = (if n = 1 then str ''change'' else str ''changes'')"

definition formatCapabilitiesList :: "SpecImpact \<Rightarrow> jsstring" where
  "formatCapabilitiesList impact =
     (if length (si_capabilities impact) = 0 then str ''_No capabilities affected_''
      else
        let changeCounts = countChanges (si_changes impact) Map.empty
        in join (map (\<lambda>capability.
                        let n = getOrZero changeCounts capability
                        in str ''- `'' @ capability @ str ''` - '' @ showNat n @ str '' '' @ plural n)
                     (si_capabilities impact)) [LF])"

text \<open>The body of an added or modified requirement without its header line;
  \<open>if (change.content)\<close> and \<open>if (content)\<close> pass for a non-empty text only.\<close>

definition contentLines :: "SpecChange \<Rightarrow> jsstring list" where
  "contentLines change =
     (case sc_content change of
        None \<Rightarrow> []
      | Some text \<Rightarrow>
          if text = [] then []
          else
            let content = trim (join (filter (\<lambda>line. \<not> startsWith line (str ''### Requirement:''))
                                             (split text LF)) [LF])
            in if content \<noteq> [] then [content] else [])"

definition requirementLines :: "SpecChange \<Rightarrow> jsstring list" where
  "requirementLines change =
     [str ''##### `Requirement: '' @ sc_requirementName change @ str ''`'']
     @ contentLines change @ [[]]"

text \<open>A template literal renders an absent \<open>oldName\<close> as \<open>undefined\<close>; the arrow is
  U+2192.\<close>

definition renameLine :: "SpecChange \<Rightarrow> jsstring" where
  "renameLine change =
     str ''- `''
     @ (case sc_oldName change of None \<Rightarrow> str ''undefined'' | Some old \<Rightarrow> old)
     @ str ''` '' @ [0x2192] @ str '' `'' @ sc_requirementName change @ str ''`''"

definition formatCapabilityChanges :: "jsstring \<Rightarrow> SpecChange list \<Rightarrow> jsstring" where
  "formatCapabilityChanges capabilityName changes =
     (let capabilityChanges = filter (\<lambda>c. sc_capabilityName c = capabilityName) changes
      in if length capabilityChanges = 0 then []
         else
           let addedChanges = filter (\<lambda>c. sc_operation c = OpAdd) capabilityChanges;
               modifiedChanges = filter (\<lambda>c. sc_operation c = OpModify) capabilityChanges;
               removedChanges = filter (\<lambda>c. sc_operation c = OpRemove) capabilityChanges;
               renamedChanges = filter (\<lambda>c. sc_operation c = OpRename) capabilityChanges
           in join
                ([str ''<details>'',
                  str ''<summary><strong>'' @ capabilityName @ str ''</strong> (''
                    @ showNat (length capabilityChanges) @ str '' ''
                    @ plural (length capabilityChanges) @ str '')</summary>'',
                  []]
                 @ (if length addedChanges > 0
                    then [str ''#### Added'', []] @ concat (map requirementLines addedChanges)
                    else [])
                 @ (if length modifiedChanges > 0
                    then [str ''#### Modified'', []] @ concat (map requirementLines modifiedChanges)
                    else [])
                 @ (if length renamedChanges > 0
                    then [str ''#### Renamed'', []] @ map renameLine renamedChanges @ [[]]
                    else [])
                 @ (if length removedChanges > 0
                    then [str ''#### Removed'', []]
                         @ map (\<lambda>change. str ''- `Requirement: '' @ sc_requirementName change @ str ''`'')
                               removedChanges
                         @ [[]]
                    else [])
                 @ [str ''</details>''])
                [LF])"

text \<open>\<open>[...new Set(xs)]\<close>: the distinct elements in the order of their first occurrence.\<close>

fun unique :: "'a list \<Rightarrow> 'a list \<Rightarrow> 'a list" where
  "unique [] seen = []"
| "unique (x # xs) seen = (if x \<in> set seen then unique xs seen else x # unique xs (x # seen))"

definition formatDiffPreview :: "SpecChange list \<Rightarrow> jsstring" where
  "formatDiffPreview changes =
     (if length changes = 0 then str ''_No spec changes detected_''
      else
        let capabilities = unique (map sc_capabilityName changes) []
        in join (filter (\<lambda>section. section \<noteq> [])
                        (map (\<lambda>capability. formatCapabilityChanges capability changes) capabilities))
                [LF, LF])"

definition truncationNotice :: jsstring where
  "truncationNotice =
     [LF, LF] @ str ''_... content truncated due to length ..._'' @ [LF, LF] @ str ''---'' @ [LF]
     @ str ''*Generated by spectr-action*''"

definition formatPRComment :: "(jsstring \<Rightarrow> jsstring) \<Rightarrow> SpecImpact \<Rightarrow> jsstring" where
  "formatPRComment toUpperCase impact =
     (let marker = generatePRImpactMarker (si_changeId impact);
          body = join
            [marker,
             [],
             str ''## Spectr Impact: `'' @ si_changeId impact @ str ''`'',
             [],
             formatStatusTable toUpperCase impact,
             [],
             str ''### Summary'',
             [],
             formatSummaryTable (si_counts impact),
             [],
             str ''### Affected Capabilities'',
             [],
             formatCapabilitiesList impact,
             [],
             str ''### Changes'',
             [],
             formatDiffPreview (si_changes impact),
             [],
             str ''---'',
             str ''*Generated by [spectr-action](https://github.com/connerohnesorge/spectr-action) | [View proposal](spectr/changes/''
               @ si_changeId impact @ str ''/proposal.md)*''] [LF]
      in if length body > MAX_COMMENT_BODY_LENGTH
         then take (MAX_COMMENT_BODY_LENGTH - length truncationNotice) body @ truncationNotice
         else body)"

text \<open>\<open>s.replace(/\s+/g, " ").trim()\<close>\<close>

definition normalizeComment :: "jsstring \<Rightarrow> jsstring" where
  "normalizeComment s = trim (replaceAll s (Rep isWhiteSpace 1) (str '' ''))"

definition commentsMatch :: "jsstring \<Rightarrow> jsstring \<Rightarrow> bool" where
  "commentsMatch existing updated = (normalizeComment existing = normalizeComment updated)"

section \<open>Delta specs and impact (pr-impact/calculate.ts)\<close>

text \<open>
  The file system and the case mapping are the environment of this module. A call of
  \<open>node:fs\<close> that can throw returns a sum; \<open>existsSync\<close> never throws.
  \<open>readdirSync\<close> lists names, \<open>readdirSyncWithFileTypes\<close> lists names with the
  answer of \<open>isDirectory()\<close>.
\<close>

datatype io_error = IOError jsstring

record runtime =
  toUpperCase :: "jsstring \<Rightarrow> jsstring"
  path_join :: "jsstring list \<Rightarrow> jsstring"
  existsSync :: "jsstring \<Rightarrow> bool"
  readdirSync :: "jsstring \<Rightarrow> io_error + jsstring list"
  readdirSyncWithFileTypes :: "jsstring \<Rightarrow> io_error + (jsstring \<times> bool) list"
  readFileSync :: "jsstring \<Rightarrow> io_error + jsstring"

datatype DeltaType = ADDED | MODIFIED | REMOVED | RENAMED

fun deltaTypeText :: "DeltaType \<Rightarrow> jsstring" where
  "deltaTypeText ADDED = str ''ADDED''"
| "deltaTypeText MODIFIED = str ''MODIFIED''"
| "deltaTypeText REMOVED = str ''REMOVED''"
| "deltaTypeText RENAMED = str ''RENAMED''"

record ParsedRequirement =
  req_name :: jsstring
  req_content :: jsstring

record RenameOp =
  rename_from :: jsstring
  rename_to :: jsstring

record DeltaPlan =
  plan_added :: "ParsedRequirement list"
  plan_modified :: "ParsedRequirement list"
  plan_removed :: "jsstring list"
  plan_renamed :: "RenameOp list"

fun anyEntry :: "jsstring list \<Rightarrow> jsstring \<Rightarrow> bool" where
  "anyEntry [] changeId = False"
| "anyEntry (entry # entries) changeId =
     (if endsWith entry (str ''-'' @ changeId) \<or> entry = changeId then True
      else anyEntry entries changeId)"

definition checkArchiveStatus :: "runtime \<Rightarrow> jsstring \<Rightarrow> jsstring \<Rightarrow> bool" where
  "checkArchiveStatus R changeId workspacePath =
     (let archivePath = path_join R [workspacePath, str ''spectr'', str ''changes'', str ''archive'']
      in if \<not> existsSync R archivePath then False
         else (case readdirSync R archivePath of
                 Inl _ \<Rightarrow> False
               | Inr entries \<Rightarrow> anyEntry entries changeId))"

fun specFilesOf ::
  "runtime \<Rightarrow> jsstring \<Rightarrow> (jsstring \<times> bool) list \<Rightarrow> (jsstring \<times> jsstring) list" where
  "specFilesOf R specsDir [] = []"
| "specFilesOf R specsDir ((name, isDirectory) # entries) =
     (if isDirectory
      then (let specFile = path_join R [specsDir, name, str ''spec.md'']
            in if existsSync R specFile then (name, specFile) # specFilesOf R specsDir entries
               else specFilesOf R specsDir entries)
      else specFilesOf R specsDir entries)"

text \<open>The result pairs are \<open>(capabilityName, filePath)\<close>.\<close>

definition findDeltaSpecFiles :: "runtime \<Rightarrow> jsstring \<Rightarrow> jsstring \<Rightarrow> (jsstring \<times> jsstring) list" where
  "findDeltaSpecFiles R changeId workspacePath =
     (let specsDir = path_join R [workspacePath, str ''spectr'', str ''changes'', changeId, str ''specs'']
      in if \<not> existsSync R specsDir then []
         else (case readdirSyncWithFileTypes R specsDir of
                 Inl _ \<Rightarrow> []
               | Inr entries \<Rightarrow> specFilesOf R specsDir entries))"

text \<open>\<open>rest || null\<close>: the empty text is \<open>null\<close>.\<close>

definition orNull :: "jsstring \<Rightarrow> jsstring option" where
  "orNull s = (if s = [] then None else Some s)"

definition matchRequirementHeader :: "jsstring \<Rightarrow> jsstring option" where
  "matchRequirementHeader line =
     (if \<not> startsWith line (str ''###'') then None
      else
        let rest = trimStart (drop 3 line)
        in if \<not> startsWith rest (str ''Requirement:'') then None
           else orNull (trimStart (drop 12 rest)))"

definition isH3Header :: "jsstring \<Rightarrow> bool" where
  "isH3Header line = startsWith line (str ''### '')"

fun firstDeltaType :: "DeltaType list \<Rightarrow> jsstring \<Rightarrow> DeltaType option" where
  "firstDeltaType [] rest = None"
| "firstDeltaType (dt # dts) rest =
     (if rest = deltaTypeText dt @ str '' Requirements'' then Some dt else firstDeltaType dts rest)"

definition matchH2DeltaSection :: "jsstring \<Rightarrow> DeltaType option" where
  "matchH2DeltaSection line =
     (if \<not> startsWith line (str ''## '') then None
      else firstDeltaType [ADDED, MODIFIED, REMOVED, RENAMED] (trim (drop 3 line)))"

text \<open>The index just after the header line: the loop over \<open>headerEnd\<close> stops at the
  first newline at or after it, which is then included.\<close>

fun skipLine :: "jsstring \<Rightarrow> jsstring" where
  "skipLine [] = []"
| "skipLine (c # cs) = (if c = LF then cs else skipLine cs)"

text \<open>The scan for the next \<open>## \<close> line: \<open>offset\<close> adds up the lengths of the lines
  passed, each with its newline.\<close>

fun nextH2Offset :: "jsstring list \<Rightarrow> nat \<Rightarrow> nat option" where
  "nextH2Offset [] offset = None"
| "nextH2Offset (line # lines) offset =
     (if startsWith (trimStart line) (str ''## '') then Some offset
      else nextH2Offset lines (offset + length line + 1))"

definition findDeltaSectionContent :: "jsstring \<Rightarrow> DeltaType \<Rightarrow> jsstring" where
  "findDeltaSectionContent content deltaType =
     (let sectionHeader = str ''## '' @ deltaTypeText deltaType @ str '' Requirements''
      in (case indexOf content sectionHeader of
            None \<Rightarrow> []
          | Some headerStart \<Rightarrow>
              let rest = skipLine (drop (headerStart + length sectionHeader) content)
              in (case nextH2Offset (split rest LF) 0 of
                    Some offset \<Rightarrow> take offset rest
                  | None \<Rightarrow> rest)))"

definition pushReq :: "ParsedRequirement list \<Rightarrow> ParsedRequirement option \<Rightarrow> ParsedRequirement list" where
  "pushReq requirements currentReq =
     (case currentReq of None \<Rightarrow> requirements | Some req \<Rightarrow> requirements @ [req])"

fun requirementsLoop ::
  "jsstring list \<Rightarrow> ParsedRequirement list \<Rightarrow> ParsedRequirement option \<Rightarrow> ParsedRequirement list" where
  "requirementsLoop [] requirements currentReq = pushReq requirements currentReq"
| "requirementsLoop (line # lines) requirements currentReq =
     (case matchRequirementHeader line of
        Some name \<Rightarrow>
          requirementsLoop lines (pushReq requirements currentReq)
            (Some \<lparr>req_name = name, req_content = line @ [LF]\<rparr>)
      | None \<Rightarrow>
          if isH3Header line \<and> matchRequirementHeader line = None
          then requirementsLoop lines (pushReq requirements currentReq) None
          else if startsWith line (str ''## '') then pushReq requirements currentReq
          else requirementsLoop lines requirements
                 (map_option (\<lambda>req. req\<lparr>req_content := req_content req @ line @ [LF]\<rparr>) currentReq))"

definition parseRequirementsFromSection :: "jsstring \<Rightarrow> ParsedRequirement list" where
  "parseRequirementsFromSection sectionContent =
     requirementsLoop (split sectionContent LF) [] None"

fun removedLoop :: "jsstring list \<Rightarrow> jsstring list" where
  "removedLoop [] = []"
| "removedLoop (line # lines) =
     (let trimmed = trim line
      in (case matchRequirementHeader trimmed of
            Some name \<Rightarrow> name # removedLoop lines
          | None \<Rightarrow>
              if startsWith trimmed (str ''- '') \<or> startsWith trimmed (str ''* '')
              then (let itemText = trim (drop 2 trimmed)
                    in if itemText \<noteq> [] then itemText # removedLoop lines
                       else removedLoop lines)
              else removedLoop lines))"

definition parseRemovedSection :: "jsstring \<Rightarrow> jsstring list" where
  "parseRemovedSection sectionContent = removedLoop (split sectionContent LF)"

text \<open>The shared body of \<open>matchRenamedFrom\<close> and \<open>matchRenamedTo\<close>, which differ in the
  keyword only (\<open>FROM:\<close>, five units, and \<open>TO:\<close>, three). \<open>slice(1, -1)\<close> drops the
  first and the last unit.\<close>

definition matchRenamed :: "runtime \<Rightarrow> jsstring \<Rightarrow> jsstring \<Rightarrow> jsstring option" where
  "matchRenamed R keyword line =
     (let trimmed = trim line
      in if \<not> startsWith trimmed (str ''-'') then None
         else
           let rest = trim (drop 1 trimmed)
           in if \<not> startsWith (toUpperCase R rest) keyword then None
              else
                let rest = trim (drop (length keyword) rest)
                in if startsWith rest (str ''`'') \<and> endsWith rest (str ''`'')
                   then (let content = drop 1 (take (length rest - 1) rest)
                         in if \<not> startsWith (toUpperCase R content) (str ''### REQUIREMENT:'')
                            then None
                            else orNull (trim (drop 16 content)))
                   else if \<not> startsWith rest (str ''###'') then None
                   else
                     let rest = trimStart (drop 3 rest)
                     in if \<not> startsWith (toUpperCase R rest) (str ''REQUIREMENT:'') then None
                        else orNull (trim (drop 12 rest)))"

definition matchRenamedFrom :: "runtime \<Rightarrow> jsstring \<Rightarrow> jsstring option" where
  "matchRenamedFrom R line = matchRenamed R (str ''FROM:'') line"

definition matchRenamedTo :: "runtime \<Rightarrow> jsstring \<Rightarrow> jsstring option" where
  "matchRenamedTo R line = matchRenamed R (str ''TO:'') line"

fun renamedLoop :: "runtime \<Rightarrow> jsstring list \<Rightarrow> jsstring option \<Rightarrow> RenameOp list" where
  "renamedLoop R [] currentFrom = []"
| "renamedLoop R (line # lines) currentFrom =
     (case matchRenamedFrom R line of
        Some fromName \<Rightarrow> renamedLoop R lines (Some fromName)
      | None \<Rightarrow>
          (case (matchRenamedTo R line, currentFrom) of
             (Some toName, Some fromName) \<Rightarrow>
               \<lparr>rename_from = fromName, rename_to = toName\<rparr> # renamedLoop R lines None
           | _ \<Rightarrow> renamedLoop R lines currentFrom))"

definition parseRenamedSection :: "runtime \<Rightarrow> jsstring \<Rightarrow> RenameOp list" where
  "parseRenamedSection R sectionContent = renamedLoop R (split sectionContent LF) None"

definition emptyPlan :: DeltaPlan where
  "emptyPlan = \<lparr>plan_added = [], plan_modified = [], plan_removed = [], plan_renamed = []\<rparr>"

text \<open>The four sections of a text that has been read; \<open>if (addedContent)\<close> skips an
  empty section.\<close>

definition parseSections :: "runtime \<Rightarrow> jsstring \<Rightarrow> DeltaPlan" where
  "parseSections R content =
     (let addedContent = findDeltaSectionContent content ADDED;
          modifiedContent = findDeltaSectionContent content MODIFIED;
          removedContent = findDeltaSectionContent content REMOVED;
          renamedContent = findDeltaSectionContent content RENAMED
      in \<lparr>plan_added = (if addedContent \<noteq> [] then parseRequirementsFromSection addedContent else []),
          plan_modified = (if modifiedContent \<noteq> [] then parseRequirementsFromSection modifiedContent else []),
          plan_removed = (if removedContent \<noteq> [] then parseRemovedSection removedContent else []),
          plan_renamed = (if renamedContent \<noteq> [] then parseRenamedSection R renamedContent else [])\<rparr>)"

text \<open>The body of the \<open>try\<close> block: reading the file is the one step that can throw.\<close>

definition parseDeltaSpec_try :: "runtime \<Rightarrow> jsstring \<Rightarrow> io_error + DeltaPlan" where
  "parseDeltaSpec_try R filePath =
     (case readFileSync R filePath of
        Inl e \<Rightarrow> Inl e
      | Inr content \<Rightarrow> Inr (parseSections R content))"

text \<open>The whole function with its \<open>catch\<close>; the result is a sum so that a throw of the
  function would be the value \<open>Inl\<close>.\<close>

definition parseDeltaSpec :: "runtime \<Rightarrow> jsstring \<Rightarrow> io_error + DeltaPlan" where
  "parseDeltaSpec R filePath =
     (case parseDeltaSpec_try R filePath of
        Inl _ \<Rightarrow> Inr emptyPlan
      | Inr plan \<Rightarrow> Inr plan)"

text \<open>The changes of one capability, in the order of the four inner loops, and the counts
  after them.\<close>

definition planChanges :: "jsstring \<Rightarrow> DeltaPlan \<Rightarrow> SpecChange list" where
  "planChanges capabilityName plan =
     map (\<lambda>req. \<lparr>sc_capabilityName = capabilityName, sc_operation = OpAdd,
                 sc_requirementName = req_name req, sc_content = Some (trim (req_content req)),
                 sc_oldName = None\<rparr>) (plan_added plan)
     @ map (\<lambda>req. \<lparr>sc_capabilityName = capabilityName, sc_operation = OpModify,
                   sc_requirementName = req_name req, sc_content = Some (trim (req_content req)),
                   sc_oldName = None\<rparr>) (plan_modified plan)
     @ map (\<lambda>name. \<lparr>sc_capabilityName = capabilityName, sc_operation = OpRemove,
                    sc_requirementName = name, sc_content = None, sc_oldName = None\<rparr>)
           (plan_removed plan)
     @ map (\<lambda>rename. \<lparr>sc_capabilityName = capabilityName, sc_operation = OpRename,
                      sc_requirementName = rename_to rename, sc_content = None,
                      sc_oldName = Some (rename_from rename)\<rparr>) (plan_renamed plan)"

definition planCounts :: "DeltaPlan \<Rightarrow> OperationCounts \<Rightarrow> OperationCounts" where
  "planCounts plan counts =
     counts\<lparr>added := added counts + length (plan_added plan),
            modified := modified counts + length (plan_modified plan),
            removed := removed counts + length (plan_removed plan),
            renamed := renamed counts + length (plan_renamed plan)\<rparr>"

text \<open>The loop over the spec files; the state is \<open>(changes, capabilities, counts)\<close>.\<close>

fun impactLoop ::
  "runtime \<Rightarrow> (jsstring \<times> jsstring) list \<Rightarrow>
   SpecChange list \<times> jsstring list \<times> OperationCounts \<Rightarrow>
   io_error + SpecChange list \<times> jsstring list \<times> OperationCounts" where
  "impactLoop R [] acc = Inr acc"
| "impactLoop R ((capabilityName, filePath) # specFiles) (changes, capabilities, counts) =
     (case parseDeltaSpec R filePath of
        Inl e \<Rightarrow> Inl e
      | Inr plan \<Rightarrow>
          impactLoop R specFiles
            (changes @ planChanges capabilityName plan,
             capabilities @ [capabilityName],
             planCounts plan counts))"

definition calculateSpecImpact :: "runtime \<Rightarrow> jsstring \<Rightarrow> jsstring \<Rightarrow> PRMode \<Rightarrow> io_error + SpecImpact" where
  "calculateSpecImpact R changeId workspacePath mode =
     (let isArchived = checkArchiveStatus R changeId workspacePath;
          specFiles = findDeltaSpecFiles R changeId workspacePath
      in (case impactLoop R specFiles
                 ([], [], \<lparr>added = 0, modified = 0, removed = 0, renamed = 0, total = 0\<rparr>) of
            Inl e \<Rightarrow> Inl e
          | Inr (changes, capabilities, counts) \<Rightarrow>
              Inr \<lparr>si_changeId = changeId, si_mode = mode, si_isArchived = isArchived,
                   si_capabilities = capabilities, si_changes = changes,
                   si_counts = counts\<lparr>total := added counts + modified counts
                                               + removed counts + renamed counts\<rparr>\<rparr>))"

section \<open>Remote calls (issues/sync.ts)\<close>

text \<open>
  The tracker is reached through four requests. \<open>issues.update\<close> is sent with two
  shapes of payload: title, body and labels (\<open>updateIssue\<close>), or a state with an optional
  \<open>state_reason\<close> (\<open>closeIssue\<close>, \<open>reopenIssue\<close>). The remote side answers a request,
  given the requests sent before it, with an error (the request throws) or with a number
  (the issue number for a creation). A computation takes the log of the requests sent so
  far and returns its outcome with the extended log; all calls are awaited one after the
  other, so the log is the order of invocation.
\<close>

datatype api_error = ApiError nat jsstring

datatype api_call =
    IssuesCreate jsstring jsstring "jsstring list"
  | IssuesUpdate nat jsstring jsstring "jsstring list"
  | IssuesUpdateState nat issue_state "jsstring option"
  | IssuesCreateComment nat jsstring

type_synonym remote = "api_call list \<Rightarrow> api_call \<Rightarrow> api_error + nat"

type_synonym 'a io = "api_call list \<Rightarrow> (api_error + 'a) \<times> api_call list"

definition request :: "remote \<Rightarrow> api_call \<Rightarrow> nat io" where
  "request W call log = (W log call, log @ [call])"

definition return_io :: "'a \<Rightarrow> 'a io" where
  "return_io x log = (Inr x, log)"

definition bind_io :: "'a io \<Rightarrow> ('a \<Rightarrow> 'b io) \<Rightarrow> 'b io" where
  "bind_io m f log =
     (case m log of
        (Inl e, log') \<Rightarrow> (Inl e, log')
      | (Inr x, log') \<Rightarrow> f x log')"

definition createIssue :: "remote \<Rightarrow> jsstring \<Rightarrow> jsstring \<Rightarrow> jsstring list \<Rightarrow> nat io" where
  "createIssue W title body labels = request W (IssuesCreate title body labels)"

definition updateIssue :: "remote \<Rightarrow> nat \<Rightarrow> jsstring \<Rightarrow> jsstring \<Rightarrow> jsstring list \<Rightarrow> unit io" where
  "updateIssue W issueNumber title body labels =
     bind_io (request W (IssuesUpdate issueNumber title body labels)) (\<lambda>_. return_io ())"

text \<open>\<open>if (comment)\<close>: an absent and an empty comment are both skipped.\<close>

definition closeIssue :: "remote \<Rightarrow> nat \<Rightarrow> jsstring option \<Rightarrow> unit io" where
  "closeIssue W issueNumber comment =
     bind_io (case comment of
                None \<Rightarrow> return_io ()
              | Some text \<Rightarrow>
                  if text = [] then return_io ()
                  else bind_io (request W (IssuesCreateComment issueNumber text)) (\<lambda>_. return_io ()))
       (\<lambda>_. bind_io (request W (IssuesUpdateState issueNumber Closed (Some (str ''completed''))))
                     (\<lambda>_. return_io ()))"

definition reopenIssue :: "remote \<Rightarrow> nat \<Rightarrow> unit io" where
  "reopenIssue W issueNumber =
     bind_io (request W (IssuesUpdateState issueNumber Open None)) (\<lambda>_. return_io ())"

section \<open>Reconciliation (issues/index.ts)\<close>

datatype sync_outcome = Created | Updated | Skipped

definition syncActiveChange ::
  "remote \<Rightarrow> ChangeProposal \<Rightarrow> IssueSyncConfig \<Rightarrow> jsstring list \<Rightarrow> ManagedIssue option \<Rightarrow>
   sync_outcome io" where
  "syncActiveChange W change config labels existingIssue =
     (let title = formatIssueTitle (cp_id change) config;
          body = formatIssueBody change
      in (case existingIssue of
            None \<Rightarrow> bind_io (createIssue W title body labels) (\<lambda>issueNumber. return_io Created)
          | Some existing \<Rightarrow>
              if \<not> cfg_updateExisting config then return_io Skipped
              else if mi_state existing = Closed
              then bind_io (reopenIssue W (mi_number existing))
                     (\<lambda>_. bind_io (updateIssue W (mi_number existing) title body labels)
                        (\<lambda>_. return_io Updated))
              else if bodiesMatch (mi_body existing) body \<and> mi_title existing = title
              then return_io Skipped
              else bind_io (updateIssue W (mi_number existing) title body labels)
                     (\<lambda>_. return_io Updated)))"

record SyncError =
  err_changeId :: jsstring
  err_message :: jsstring
  err_recoverable :: bool

record SyncResult =
  res_closed :: nat
  res_created :: nat
  res_errors :: "SyncError list"
  res_totalChanges :: nat
  res_updated :: nat

text \<open>\<open>issueMap\<close>: a later issue with the same change id replaces an earlier one.\<close>

fun buildIssueMap :: "ManagedIssue list \<Rightarrow> (jsstring \<rightharpoonup> ManagedIssue) \<Rightarrow> (jsstring \<rightharpoonup> ManagedIssue)" where
  "buildIssueMap [] issueMap = issueMap"
| "buildIssueMap (issue # issues) issueMap =
     buildIssueMap issues (issueMap(mi_changeId issue \<mapsto> issue))"

fun errorMessage :: "api_error \<Rightarrow> jsstring" where
  "errorMessage (ApiError status message) = message"

definition ARCHIVED_COMMENT :: jsstring where
  "ARCHIVED_COMMENT = str ''This change has been archived. Closing the tracking issue.''"

text \<open>The loop of \<open>syncIssues\<close> over the active changes: a failure of one change is
  recorded and the loop goes on.\<close>

fun activeLoop ::
  "remote \<Rightarrow> IssueSyncConfig \<Rightarrow> jsstring list \<Rightarrow> (jsstring \<rightharpoonup> ManagedIssue) \<Rightarrow>
   ChangeProposal list \<Rightarrow> SyncResult \<times> api_call list \<Rightarrow> SyncResult \<times> api_call list" where
  "activeLoop W config allLabels issueMap [] (result, log) = (result, log)"
| "activeLoop W config allLabels issueMap (change # changes) (result, log) =
     (case syncActiveChange W change config allLabels (issueMap (cp_id change)) log of
        (Inr Created, log') \<Rightarrow>
          activeLoop W config allLabels issueMap changes
            (result\<lparr>res_created := res_created result + 1\<rparr>, log')
      | (Inr Updated, log') \<Rightarrow>
          activeLoop W config allLabels issueMap changes
            (result\<lparr>res_updated := res_updated result + 1\<rparr>, log')
      | (Inr Skipped, log') \<Rightarrow>
          activeLoop W config allLabels issueMap changes (result, log')
      | (Inl e, log') \<Rightarrow>
          activeLoop W config allLabels issueMap changes
            (result\<lparr>res_errors := res_errors result
                       @ [\<lparr>err_changeId = cp_id change, err_message = errorMessage e,
                           err_recoverable = True\<rparr>]\<rparr>, log'))"

text \<open>The loop of \<open>syncIssues\<close> over the archived changes, entered when
  \<open>closeOnArchive\<close> is set: an open issue of an archived change is closed with the fixed
  comment.\<close>

fun archivedLoop ::
  "remote \<Rightarrow> (jsstring \<rightharpoonup> ManagedIssue) \<Rightarrow> ChangeProposal list \<Rightarrow>
   SyncResult \<times> api_call list \<Rightarrow> SyncResult \<times> api_call list" where
  "archivedLoop W issueMap [] (result, log) = (result, log)"
| "archivedLoop W issueMap (change # changes) (result, log) =
     (case issueMap (cp_id change) of
        None \<Rightarrow> archivedLoop W issueMap changes (result, log)
      | Some existingIssue \<Rightarrow>
          if mi_state existingIssue = Open
          then (case closeIssue W (mi_number existingIssue) (Some ARCHIVED_COMMENT) log of
                  (Inr _, log') \<Rightarrow>
                    archivedLoop W issueMap changes
                      (result\<lparr>res_closed := res_closed result + 1\<rparr>, log')
                | (Inl e, log') \<Rightarrow>
                    archivedLoop W issueMap changes
                      (result\<lparr>res_errors := res_errors result
                                 @ [\<lparr>err_changeId = cp_id change, err_message = errorMessage e,
                                     err_recoverable = True\<rparr>]\<rparr>, log'))
          else archivedLoop W issueMap changes (result, log))"

definition closeArchived ::
  "remote \<Rightarrow> IssueSyncConfig \<Rightarrow> (jsstring \<rightharpoonup> ManagedIssue) \<Rightarrow> ChangeProposal list \<Rightarrow>
   SyncResult \<times> api_call list \<Rightarrow> SyncResult \<times> api_call list" where
  "closeArchived W config issueMap archivedChanges st =
     (if cfg_closeOnArchive config then archivedLoop W issueMap archivedChanges st else st)"

section \<open>Auxiliary notions of the proofs\<close>

text \<open>Both marker patterns have one shape and differ in the tag.\<close>

definition markerRe :: "jsstring \<Rightarrow> regex" where
  "markerRe tag =
     seqs [Lit (str ''<!--''), Rep isWhiteSpace 0, Lit tag,
           Grp 1 (Rep isIdChar 1), Rep isWhiteSpace 0, Lit (str ''-->'')]"

subsection \<open>The equivalence of bodies in the words of the specification\<close>

text \<open>The words of the specification: every run of whitespace becomes one space.\<close>

fun collapseRuns :: "jsstring \<Rightarrow> jsstring" where
  "collapseRuns [] = []"
| "collapseRuns [c] = [if isWhiteSpace c then 0x20 else c]"
| "collapseRuns (c # d # cs) =
     (if isWhiteSpace c \<and> isWhiteSpace d then collapseRuns (d # cs)
      else (if isWhiteSpace c then 0x20 else c) # collapseRuns (d # cs))"

definition collapsedAndTrimmed :: "jsstring \<Rightarrow> jsstring" where
  "collapsedAndTrimmed s = trim (collapseRuns s)"

definition startsNonWs :: "jsstring \<Rightarrow> bool" where
  "startsNonWs s = (case s of [] \<Rightarrow> False | d # _ \<Rightarrow> \<not> isWhiteSpace d)"

text \<open>The maximal runs of units that are not whitespace, in order.\<close>

fun tokens :: "jsstring \<Rightarrow> jsstring list" where
  "tokens [] = []"
| "tokens (c # cs) =
     (if isWhiteSpace c then tokens cs
      else if startsNonWs cs
           then (case tokens cs of t # ts \<Rightarrow> (c # t) # ts | [] \<Rightarrow> [[c]])
           else [c] # tokens cs)"

subsection \<open>The order of remote calls, and values for the examples\<close>

text \<open>The order of the calls: every call that closes an issue directly follows a call
  that comments on the same issue.\<close>

fun closes :: "api_call \<Rightarrow> nat option" where
  "closes (IssuesUpdateState n Closed reason) = Some n"
| "closes _ = None"

fun commentsOn :: "api_call \<Rightarrow> nat option" where
  "commentsOn (IssuesCreateComment n text) = Some n"
| "commentsOn _ = None"

fun commentBeforeClose :: "api_call option \<Rightarrow> api_call list \<Rightarrow> bool" where
  "commentBeforeClose previous [] = True"
| "commentBeforeClose previous (call # calls) =
     ((case closes call of
         None \<Rightarrow> True
       | Some n \<Rightarrow> (case previous of None \<Rightarrow> False | Some p \<Rightarrow> commentsOn p = Some n))
      \<and> commentBeforeClose (Some call) calls)"

text \<open>Values for the examples.\<close>

definition exampleChange :: ChangeProposal where
  "exampleChange =
     \<lparr>cp_id = str ''add-feature'', cp_path = str ''spectr/changes/add-feature'',
      cp_proposalContent = str ''# Change'', cp_tasksContent = None,
      cp_affectedSpecs = [str ''auth''], cp_isArchived = False\<rparr>"

definition exampleConfig :: "bool \<Rightarrow> IssueSyncConfig" where
  "exampleConfig update =
     \<lparr>cfg_enabled = True, cfg_labels = [str ''spectr''], cfg_titlePrefix = str ''[Spectr]'',
      cfg_closeOnArchive = True, cfg_updateExisting = update,
      cfg_spectrLabel = str ''spectr-managed'', cfg_githubToken = str ''t''\<rparr>"

definition exampleIssue :: "issue_state \<Rightarrow> jsstring \<Rightarrow> jsstring \<Rightarrow> ManagedIssue" where
  "exampleIssue st title text =
     \<lparr>mi_number = 7, mi_changeId = str ''add-feature'', mi_state = st,
      mi_title = title, mi_body = text\<rparr>"

definition exampleRemote :: remote where
  "exampleRemote log call = Inr 7"

subsection \<open>Archive names in the words of the specification, an environment, counting\<close>

text \<open>The dated form of an archive entry in the words of the specification:
  \<open>YYYY-MM-DD-<id>\<close>.\<close>

definition isDigit :: "jschar \<Rightarrow> bool" where
  "isDigit c = (0x30 \<le> c \<and> c \<le> 0x39)"

definition dateShape :: "jsstring \<Rightarrow> bool" where
  "dateShape d =
     (length d = 10 \<and> isDigit (d ! 0) \<and> isDigit (d ! 1) \<and> isDigit (d ! 2) \<and> isDigit (d ! 3)
      \<and> d ! 4 = 0x2D \<and> isDigit (d ! 5) \<and> isDigit (d ! 6)
      \<and> d ! 7 = 0x2D \<and> isDigit (d ! 8) \<and> isDigit (d ! 9))"

definition isDatedName :: "jsstring \<Rightarrow> jsstring \<Rightarrow> bool" where
  "isDatedName changeId entry =
     (dateShape (take 10 entry) \<and> drop 10 entry = str ''-'' @ changeId)"

text \<open>The case mapping of the examples: \<open>toUpperCase\<close> on the letters \<open>a\<close> to
  \<open>z\<close>; every other unit of an ASCII text is its own upper case.\<close>

definition asciiUpper :: "jsstring \<Rightarrow> jsstring" where
  "asciiUpper s = map (\<lambda>c. if 0x61 \<le> c \<and> c \<le> 0x7A then c - 0x20 else c) s"

text \<open>An environment for the examples: every path exists, every directory has the given
  entries, and a file has the given content or cannot be read.\<close>

definition exampleRuntime :: "jsstring list \<Rightarrow> jsstring option \<Rightarrow> runtime" where
  "exampleRuntime entries content =
     \<lparr>toUpperCase = asciiUpper,
      path_join = (\<lambda>segments. join segments (str ''/'')),
      existsSync = (\<lambda>p. True),
      readdirSync = (\<lambda>p. Inr entries),
      readdirSyncWithFileTypes = (\<lambda>p. Inr (map (\<lambda>e. (e, True)) entries)),
      readFileSync = (\<lambda>p. case content of
                             None \<Rightarrow> Inl (IOError (str ''ENOENT''))
                           | Some text \<Rightarrow> Inr text)\<rparr>"

definition countOp :: "operation \<Rightarrow> SpecChange list \<Rightarrow> nat" where
  "countOp op changes = length (filter (\<lambda>c. sc_operation c = op) changes)"

subsection \<open>Values for the examples of rendering\<close>

definition exampleImpact :: SpecImpact where
  "exampleImpact =
     \<lparr>si_changeId = str ''add-feature'', si_mode = Proposal, si_isArchived = False,
      si_capabilities = [str ''auth''],
      si_changes = [\<lparr>sc_capabilityName = str ''auth'', sc_operation = OpAdd,
                     sc_requirementName = str ''Login'', sc_content = Some (str ''### Requirement: Login''),
                     sc_oldName = None\<rparr>],
      si_counts = \<lparr>added = 1, modified = 0, removed = 0, renamed = 0, total = 1\<rparr>\<rparr>"

text \<open>A text as long as the ceiling itself.\<close>

definition longId :: jsstring where
  "longId = replicate 65536 0x61"

section \<open>Properties of the matcher\<close>

lemma greedy_top: "lo \<le> n \<Longrightarrow> f n = Some r \<Longrightarrow> greedy n lo f = Some r"
  by (cases n) auto

lemma greedy_SomeD: "greedy n lo f = Some r \<Longrightarrow> \<exists>j. lo \<le> j \<and> j \<le> n \<and> f j = Some r"
proof (induction n)
  case 0
  then show ?case by (auto split: if_splits)
next
  case (Suc n)
  show ?case
  proof (cases "f (Suc n)")
    case None
    with Suc.prems have "greedy n lo f = Some r" by (auto split: if_splits)
    from Suc.IH [OF this] show ?thesis by (metis le_SucI)
  next
    case (Some a)
    with Suc.prems have "f (Suc n) = Some r" "lo \<le> Suc n" by (auto split: if_splits)
    then show ?thesis by blast
  qed
qed

lemma startsWith_append [simp]: "startsWith (l @ s) l"
  by (simp add: startsWith_def)

lemma startsWith_Nil [simp]: "startsWith [] p \<longleftrightarrow> p = []"
  by (auto simp: startsWith_def)

lemma startsWith_Cons_Cons [simp]: "startsWith (x # xs) (y # ys) \<longleftrightarrow> x = y \<and> startsWith xs ys"
  by (auto simp: startsWith_def)

lemma startsWith_any_Nil [simp]: "startsWith s []"
  by (simp add: startsWith_def)

lemma startsWithD: "startsWith s p \<Longrightarrow> s = p @ drop (length p) s"
  by (metis append_take_drop_id startsWith_def)

lemma rmatch_Lit_SomeD:
  "rmatch (Lit l) (i, s) c k = Some r \<Longrightarrow> s = l @ drop (length l) s \<and> k (i + length l, drop (length l) s) c = Some r"
  by (auto split: if_splits dest: startsWithD)

lemma takeWhile_prefix_split:
  assumes "j \<le> length (takeWhile P s)"
  shows "(\<forall>u\<in>set (take j s). P u) \<and> s = take j s @ drop j s"
proof -
  have "take j s = take j (takeWhile P s)"
    by (metis assms append_eq_conv_conj append_take_drop_id min.absorb2 take_take takeWhile_dropWhile_id length_take)
  then show ?thesis
    by (metis append_take_drop_id in_set_takeD set_takeWhileD)
qed

lemma rmatch_Rep_SomeD:
  "rmatch (Rep P lo) (i, s) c k = Some r \<Longrightarrow>
   \<exists>j. lo \<le> j \<and> (\<forall>u\<in>set (take j s). P u) \<and> s = take j s @ drop j s \<and> length (take j s) = j
        \<and> k (i + j, drop j s) c = Some r"
proof -
  assume "rmatch (Rep P lo) (i, s) c k = Some r"
  then obtain j where j: "lo \<le> j" "j \<le> length (takeWhile P s)" "k (i + j, drop j s) c = Some r"
    by (auto dest: greedy_SomeD)
  have "length (takeWhile P s) \<le> length s" by (rule length_takeWhile_le)
  with j(2) have "length (take j s) = j" by simp
  with j takeWhile_prefix_split [OF j(2)] show ?thesis by blast
qed

lemma rmatch_Lit_append [simp]: "rmatch (Lit l) (i, l @ s) c k = k (i + length l, s) c"
  by simp

lemma rmatch_Rep_all:
  assumes "\<forall>u\<in>set w. P u" "s = [] \<or> \<not> P (hd s)" "lo \<le> length w"
    and "k (i + length w, s) c = Some r"
  shows "rmatch (Rep P lo) (i, w @ s) c k = Some r"
proof -
  have "takeWhile P (w @ s) = w"
    using assms(1,2) by (cases s) (auto simp: takeWhile_append2)
  then show ?thesis using assms(3,4) by (simp add: greedy_top)
qed

lemma matchHere_markerRe_SomeD:
  assumes "matchHere (markerRe tag) (i, s) = Some (st, c)"
  shows "\<exists>w1 x w2 rest. s = str ''<!--'' @ w1 @ tag @ x @ w2 @ str ''-->'' @ rest
           \<and> (\<forall>u\<in>set w1. isWhiteSpace u) \<and> x \<noteq> [] \<and> (\<forall>u\<in>set x. isIdChar u)
           \<and> (\<forall>u\<in>set w2. isWhiteSpace u) \<and> c 1 = Some x"
proof -
  let ?k = "\<lambda>st' c'. Some (st', c')"
  from assms have m0: "rmatch (Lit (str ''<!--'')) (i, s) (\<lambda>_. None)
      (\<lambda>st' c'. rmatch (Rep isWhiteSpace 0) st' c'
        (\<lambda>st' c'. rmatch (Lit tag) st' c'
          (\<lambda>st' c'. rmatch (Grp 1 (Rep isIdChar 1)) st' c'
            (\<lambda>st' c'. rmatch (Rep isWhiteSpace 0) st' c'
              (\<lambda>st' c'. rmatch (Lit (str ''-->'')) st' c' ?k))))) = Some (st, c)"
    by (simp add: matchHere_def markerRe_def)
  from rmatch_Lit_SomeD [OF m0] obtain s1 i1 where
    s: "s = str ''<!--'' @ s1" and
    m1: "rmatch (Rep isWhiteSpace 0) (i1, s1) (\<lambda>_. None)
        (\<lambda>st' c'. rmatch (Lit tag) st' c'
          (\<lambda>st' c'. rmatch (Grp 1 (Rep isIdChar 1)) st' c'
            (\<lambda>st' c'. rmatch (Rep isWhiteSpace 0) st' c'
              (\<lambda>st' c'. rmatch (Lit (str ''-->'')) st' c' ?k)))) = Some (st, c)"
    by blast
  from rmatch_Rep_SomeD [OF m1] obtain w1 s2 i2 where
    s1: "s1 = w1 @ s2" "\<forall>u\<in>set w1. isWhiteSpace u" and
    m2: "rmatch (Lit tag) (i2, s2) (\<lambda>_. None)
          (\<lambda>st' c'. rmatch (Grp 1 (Rep isIdChar 1)) st' c'
            (\<lambda>st' c'. rmatch (Rep isWhiteSpace 0) st' c'
              (\<lambda>st' c'. rmatch (Lit (str ''-->'')) st' c' ?k))) = Some (st, c)"
    by blast
  from rmatch_Lit_SomeD [OF m2] obtain s3 i3 where
    s2: "s2 = tag @ s3" and
    m3: "rmatch (Grp 1 (Rep isIdChar 1)) (i3, s3) (\<lambda>_. None)
            (\<lambda>st' c'. rmatch (Rep isWhiteSpace 0) st' c'
              (\<lambda>st' c'. rmatch (Lit (str ''-->'')) st' c' ?k)) = Some (st, c)"
    by blast
  from m3 have m3': "rmatch (Rep isIdChar 1) (i3, s3) (\<lambda>_. None)
            (\<lambda>st' c'. rmatch (Rep isWhiteSpace 0) st' (c'(1 \<mapsto> take (fst st' - i3) s3))
              (\<lambda>st' c'. rmatch (Lit (str ''-->'')) st' c' ?k)) = Some (st, c)"
    by simp
  from rmatch_Rep_SomeD [OF m3'] obtain j where
    j: "1 \<le> j" "\<forall>u\<in>set (take j s3). isIdChar u" "s3 = take j s3 @ drop j s3" "length (take j s3) = j" and
    m4: "rmatch (Rep isWhiteSpace 0) (i3 + j, drop j s3) ((\<lambda>_. None)(1 \<mapsto> take j s3))
              (\<lambda>st' c'. rmatch (Lit (str ''-->'')) st' c' ?k) = Some (st, c)"
    by auto
  from rmatch_Rep_SomeD [OF m4] obtain w2 s5 i5 where
    s4: "drop j s3 = w2 @ s5" "\<forall>u\<in>set w2. isWhiteSpace u" and
    m5: "rmatch (Lit (str ''-->'')) (i5, s5) ((\<lambda>_. None)(1 \<mapsto> take j s3)) ?k = Some (st, c)"
    by blast
  from rmatch_Lit_SomeD [OF m5] obtain rest where
    s5: "s5 = str ''-->'' @ rest" and c: "c = (\<lambda>_. None)(1 \<mapsto> take j s3)"
    by blast
  have "take j s3 \<noteq> []" using j(1,4) by auto
  moreover have "s = str ''<!--'' @ w1 @ tag @ take j s3 @ w2 @ str ''-->'' @ rest"
    using s s1 s2 j(3) s4 s5 by metis
  ultimately show ?thesis using s1(2) j(2) s4(2) c by (intro exI [of _ w1] exI [of _ "take j s3"] exI [of _ w2] exI [of _ rest]) simp
qed

lemma ws_not_id: "isWhiteSpace u \<Longrightarrow> \<not> isIdChar u"
  by (auto simp: isWhiteSpace_def isIdChar_def isLineTerminator_def word_le_nat_alt)

lemma matchHere_markerRe_wellformed:
  assumes "\<forall>u\<in>set w1. isWhiteSpace u" "tag \<noteq> []" "\<not> isWhiteSpace (hd tag)"
    and "x \<noteq> []" "\<forall>u\<in>set x. isIdChar u" "w2 \<noteq> []" "\<forall>u\<in>set w2. isWhiteSpace u"
  shows "\<exists>st. matchHere (markerRe tag) (i, str ''<!--'' @ w1 @ tag @ x @ w2 @ str ''-->'' @ rest)
           = Some (st, [1 \<mapsto> x])"
proof -
  let ?k = "\<lambda>st' c'. Some (st', c')"
  let ?c = "[1 \<mapsto> x]"
  have e5: "rmatch (Lit (str ''-->'')) (i5, str ''-->'' @ rest) ?c ?k
        = Some ((i5 + length (str ''-->''), rest), ?c)" for i5
    by (rule rmatch_Lit_append)
  have e4: "rmatch (Rep isWhiteSpace 0) (i4, w2 @ str ''-->'' @ rest) ?c
              (\<lambda>st' c'. rmatch (Lit (str ''-->'')) st' c' ?k)
        = Some ((i4 + length w2 + length (str ''-->''), rest), ?c)" for i4
    by (rule rmatch_Rep_all) (use assms(7) e5 in \<open>auto simp: str_def isWhiteSpace_def isLineTerminator_def\<close>)
  have hdw2: "\<not> isIdChar (hd (w2 @ str ''-->'' @ rest))"
    using assms(6,7) by (cases w2) (auto dest: ws_not_id)
  have e3: "rmatch (Grp 1 (Rep isIdChar 1)) (i3, x @ w2 @ str ''-->'' @ rest) (\<lambda>_. None)
              (\<lambda>st' c'. rmatch (Rep isWhiteSpace 0) st' c'
                (\<lambda>st' c'. rmatch (Lit (str ''-->'')) st' c' ?k))
        = Some ((i3 + length x + length w2 + length (str ''-->''), rest), ?c)" for i3
    unfolding rmatch.simps(5)
    by (rule rmatch_Rep_all) (use assms(4,5) hdw2 e4 in \<open>auto simp: Suc_le_eq\<close>)
  have e2: "rmatch (Lit tag) (i2, tag @ x @ w2 @ str ''-->'' @ rest) (\<lambda>_. None)
             (\<lambda>st' c'. rmatch (Grp 1 (Rep isIdChar 1)) st' c'
              (\<lambda>st' c'. rmatch (Rep isWhiteSpace 0) st' c'
                (\<lambda>st' c'. rmatch (Lit (str ''-->'')) st' c' ?k)))
        = Some ((i2 + length tag + length x + length w2 + length (str ''-->''), rest), ?c)" for i2
    unfolding rmatch_Lit_append by (rule e3)
  have e1: "rmatch (Rep isWhiteSpace 0) (i1, w1 @ tag @ x @ w2 @ str ''-->'' @ rest) (\<lambda>_. None)
           (\<lambda>st' c'. rmatch (Lit tag) st' c'
             (\<lambda>st' c'. rmatch (Grp 1 (Rep isIdChar 1)) st' c'
              (\<lambda>st' c'. rmatch (Rep isWhiteSpace 0) st' c'
                (\<lambda>st' c'. rmatch (Lit (str ''-->'')) st' c' ?k))))
        = Some ((i1 + length w1 + length tag + length x + length w2 + length (str ''-->''), rest), ?c)" for i1
    by (rule rmatch_Rep_all) (use assms(1,2,3) e2 in \<open>auto\<close>)
  show ?thesis
    unfolding matchHere_def markerRe_def seqs.simps rmatch.simps(3) rmatch_Lit_append
    using e1 by blast
qed


lemma searchFrom_here: "matchHere r (i, s) = Some (st, c) \<Longrightarrow> searchFrom r i s = Some c"
  by (cases s) auto

lemma searchFrom_None:
  "(\<And>t j. suffix t s \<Longrightarrow> matchHere r (j, t) = None) \<Longrightarrow> searchFrom r i s = None"
proof (induction s arbitrary: i)
  case Nil
  then show ?case by simp
next
  case (Cons x xs)
  have "matchHere r (i, x # xs) = None" by (rule Cons.prems) simp
  moreover have "searchFrom r (Suc i) xs = None"
    by (rule Cons.IH) (simp add: Cons.prems suffix_ConsI)
  ultimately show ?case by simp
qed

lemma searchFrom_SomeD:
  "searchFrom r i s = Some c \<Longrightarrow> \<exists>t j st. suffix t s \<and> matchHere r (j, t) = Some (st, c)"
proof (induction s arbitrary: i)
  case Nil
  then obtain m where "matchHere r (i, []) = Some m" "snd m = c" by auto
  then have "matchHere r (i, []) = Some (fst m, c)" by (cases m) auto
  then show ?case by (metis suffix_order.order_refl)
next
  case (Cons x xs)
  show ?case
  proof (cases "matchHere r (i, x # xs)")
    case None
    with Cons.prems have "searchFrom r (Suc i) xs = Some c" by simp
    from Cons.IH [OF this] show ?thesis by (metis suffix_ConsI)
  next
    case (Some m)
    with Cons.prems have "matchHere r (i, x # xs) = Some (fst m, c)" by (cases m) auto
    then show ?thesis by (metis suffix_order.order_refl)
  qed
qed

lemma CHANGE_ID_MARKER_PATTERN_eq: "CHANGE_ID_MARKER_PATTERN = markerRe (str ''spectr-change-id:'')"
  by (simp add: CHANGE_ID_MARKER_PATTERN_def markerRe_def)

lemma PR_IMPACT_MARKER_PATTERN_eq: "PR_IMPACT_MARKER_PATTERN = markerRe (str ''spectr-pr-impact:'')"
  by (simp add: PR_IMPACT_MARKER_PATTERN_def markerRe_def)

text \<open>What a marker pattern captures is a non-empty text over the id class.\<close>

lemma markerRe_capture:
  assumes "js_match body (markerRe tag) = Some c"
  shows "\<exists>x. c 1 = Some x \<and> x \<noteq> [] \<and> (\<forall>u\<in>set x. isIdChar u)"
proof -
  from assms obtain t j st where "matchHere (markerRe tag) (j, t) = Some (st, c)"
    unfolding js_match_def by (blast dest: searchFrom_SomeD)
  from matchHere_markerRe_SomeD [OF this] show ?thesis by blast
qed

lemma markerRe_round_trip:
  assumes "tag \<noteq> []" "\<not> isWhiteSpace (hd tag)" "x \<noteq> []" "\<forall>u\<in>set x. isIdChar u"
  shows "\<exists>c. js_match (str ''<!-- '' @ tag @ x @ str '' -->'') (markerRe tag) = Some c \<and> c 1 = Some x"
proof -
  have "\<exists>st. matchHere (markerRe tag) (0, str ''<!--'' @ str '' '' @ tag @ x @ str '' '' @ str ''-->'' @ [])
           = Some (st, [1 \<mapsto> x])"
    by (rule matchHere_markerRe_wellformed)
       (use assms in \<open>auto simp: str_def isWhiteSpace_def\<close>)
  then obtain st where
    "matchHere (markerRe tag) (0, str ''<!-- '' @ tag @ x @ str '' -->'') = Some (st, [1 \<mapsto> x])"
    by (auto simp: str_def)
  from searchFrom_here [OF this] show ?thesis by (simp add: js_match_def)
qed

lemma suffix_at_head:
  assumes "suffix t (a # r)" "t \<noteq> []" "hd t = a" "a \<notin> set r"
  shows "t = a # r"
proof -
  from assms(1) have "t = a # r \<or> suffix t r" by (simp add: suffix_Cons)
  moreover have False if "suffix t r"
  proof -
    from that have "set t \<subseteq> set r" by (rule set_mono_suffix)
    with assms(2,3,4) show False by (cases t) auto
  qed
  ultimately show ?thesis by blast
qed

lemma lt_not_id: "isIdChar u \<Longrightarrow> u \<noteq> 0x3C \<and> u \<noteq> 0x3A \<and> u \<noteq> 0x3E \<and> u \<noteq> 0x21 \<and> u \<noteq> 0x20"
  by (auto simp: isIdChar_def word_le_nat_alt)

lemma id_not_ws: "isIdChar u \<Longrightarrow> \<not> isWhiteSpace u"
  using ws_not_id by blast

lemma takeWhile_id_colon:
  "\<forall>u\<in>set a. isIdChar u \<Longrightarrow> takeWhile isIdChar (a @ 0x3A # b) = a"
  by (simp add: takeWhile_append2 isIdChar_def)

lemma markerRe_wrong_tag:
  assumes tag0: "tag0 \<noteq> []" "\<forall>u\<in>set tag0. isIdChar u"
    and tag: "\<forall>u\<in>set tag. isIdChar u" and x: "\<forall>u\<in>set x. isIdChar u"
    and ne: "tag \<noteq> tag0"
  shows "js_match (str ''<!-- '' @ tag @ str '':'' @ x @ str '' -->'') (markerRe (tag0 @ str '':'')) = None"
proof -
  let ?body = "str ''<!-- '' @ tag @ str '':'' @ x @ str '' -->''"
  let ?tail = "str ''!-- '' @ tag @ str '':'' @ x @ str '' -->''"
  have body: "?body = 0x3C # ?tail" by (simp add: str_def)
  have notin: "0x3C \<notin> set ?tail"
    using tag x by (auto simp: str_def dest: lt_not_id)
  have "matchHere (markerRe (tag0 @ str '':'')) (j, t) = None" if suf: "suffix t ?body" for t j
  proof (rule ccontr)
    assume "matchHere (markerRe (tag0 @ str '':'')) (j, t) \<noteq> None"
    then obtain st c where "matchHere (markerRe (tag0 @ str '':'')) (j, t) = Some (st, c)"
      by auto
    from matchHere_markerRe_SomeD [OF this] obtain w1 y w2 rest where
      t: "t = str ''<!--'' @ w1 @ (tag0 @ str '':'') @ y @ w2 @ str ''-->'' @ rest"
      and w1: "\<forall>u\<in>set w1. isWhiteSpace u"
      by blast
    from t have "t \<noteq> []" "hd t = 0x3C" by (simp_all add: str_def)
    with suf notin have "t = ?body" unfolding body by (metis suffix_at_head)
    with t have eq: "0x20 # tag @ 0x3A # x @ str '' -->'' = w1 @ tag0 @ 0x3A # y @ w2 @ str ''-->'' @ rest"
      by (simp add: str_def)
    have "takeWhile isWhiteSpace (0x20 # tag @ 0x3A # x @ str '' -->'') = [0x20]"
      using tag by (cases tag) (auto simp: isWhiteSpace_def isLineTerminator_def dest: id_not_ws)
    moreover have "takeWhile isWhiteSpace (w1 @ tag0 @ 0x3A # y @ w2 @ str ''-->'' @ rest) = w1"
      using w1 tag0 by (cases tag0) (auto simp: takeWhile_append2 dest: id_not_ws)
    ultimately have w1eq: "w1 = [0x20]" using eq by metis
    with eq have "tag @ 0x3A # x @ str '' -->'' = tag0 @ 0x3A # y @ w2 @ str ''-->'' @ rest"
      by simp
    then have "takeWhile isIdChar (tag @ 0x3A # x @ str '' -->'')
               = takeWhile isIdChar (tag0 @ 0x3A # y @ w2 @ str ''-->'' @ rest)"
      by (rule arg_cong)
    moreover have "takeWhile isIdChar (tag @ 0x3A # x @ str '' -->'') = tag"
      using tag by (rule takeWhile_id_colon)
    moreover have "takeWhile isIdChar (tag0 @ 0x3A # y @ w2 @ str ''-->'' @ rest) = tag0"
      using tag0(2) by (rule takeWhile_id_colon)
    ultimately have "tag = tag0" by simp
    with ne show False by contradiction
  qed
  then show ?thesis unfolding js_match_def by (rule searchFrom_None)
qed

lemma tag_issue_id: "\<forall>u\<in>set (str ''spectr-change-id''). isIdChar u"
  by (simp add: str_def isIdChar_def)

lemma tag_pr_id: "\<forall>u\<in>set (str ''spectr-pr-impact''). isIdChar u"
  by (simp add: str_def isIdChar_def)

section \<open>Markers\<close>

text \<open>
  Claim C4. For every change id that is non-empty and consists of units of
  \<open>[a-zA-Z0-9_-]\<close> only, extracting the id from the generated marker gives this id back,
  for the issue marker (\<open>spectr-change-id\<close>) and for the pull-request marker
  (\<open>spectr-pr-impact\<close>). A marker of the generated shape whose tag is another word over
  the same class, and a marker with an empty id, match neither pattern anywhere, so that
  the extraction returns \<open>null\<close>.
\<close>

theorem marker_round_trip:
  "(cid \<noteq> [] \<and> (\<forall>u\<in>set cid. isIdChar u) \<longrightarrow>
      extractChangeIdFromBody (generateChangeIdMarker cid) = Some cid
      \<and> extractChangeIdFromComment (generatePRImpactMarker cid) = Some cid)
   \<and> ((\<forall>u\<in>set tag. isIdChar u) \<and> (\<forall>u\<in>set cid. isIdChar u) \<and> tag \<noteq> str ''spectr-change-id'' \<longrightarrow>
      extractChangeIdFromBody (str ''<!-- '' @ tag @ str '':'' @ cid @ str '' -->'') = None)
   \<and> ((\<forall>u\<in>set tag. isIdChar u) \<and> (\<forall>u\<in>set cid. isIdChar u) \<and> tag \<noteq> str ''spectr-pr-impact'' \<longrightarrow>
      extractChangeIdFromComment (str ''<!-- '' @ tag @ str '':'' @ cid @ str '' -->'') = None)
   \<and> extractChangeIdFromBody (generateChangeIdMarker []) = None
   \<and> extractChangeIdFromComment (generatePRImpactMarker []) = None"
proof (intro conjI impI)
  assume a: "cid \<noteq> [] \<and> (\<forall>u\<in>set cid. isIdChar u)"
  have "\<exists>c. js_match (str ''<!-- '' @ str ''spectr-change-id:'' @ cid @ str '' -->'')
               (markerRe (str ''spectr-change-id:'')) = Some c \<and> c 1 = Some cid"
    by (rule markerRe_round_trip) (use a in \<open>auto simp: str_def isWhiteSpace_def isLineTerminator_def\<close>)
  then show "extractChangeIdFromBody (generateChangeIdMarker cid) = Some cid"
    by (auto simp: extractChangeIdFromBody_def generateChangeIdMarker_def
        CHANGE_ID_MARKER_PATTERN_eq str_def)
  have "\<exists>c. js_match (str ''<!-- '' @ str ''spectr-pr-impact:'' @ cid @ str '' -->'')
               (markerRe (str ''spectr-pr-impact:'')) = Some c \<and> c 1 = Some cid"
    by (rule markerRe_round_trip) (use a in \<open>auto simp: str_def isWhiteSpace_def isLineTerminator_def\<close>)
  then show "extractChangeIdFromComment (generatePRImpactMarker cid) = Some cid"
    by (auto simp: extractChangeIdFromComment_def generatePRImpactMarker_def
        PR_IMPACT_MARKER_PATTERN_eq str_def)
next
  assume a: "(\<forall>u\<in>set tag. isIdChar u) \<and> (\<forall>u\<in>set cid. isIdChar u) \<and> tag \<noteq> str ''spectr-change-id''"
  have "js_match (str ''<!-- '' @ tag @ str '':'' @ cid @ str '' -->'')
          (markerRe (str ''spectr-change-id'' @ str '':'')) = None"
    by (rule markerRe_wrong_tag) (use a tag_issue_id in \<open>auto simp: str_def\<close>)
  then show "extractChangeIdFromBody (str ''<!-- '' @ tag @ str '':'' @ cid @ str '' -->'') = None"
    by (simp add: extractChangeIdFromBody_def CHANGE_ID_MARKER_PATTERN_eq str_def)
next
  assume a: "(\<forall>u\<in>set tag. isIdChar u) \<and> (\<forall>u\<in>set cid. isIdChar u) \<and> tag \<noteq> str ''spectr-pr-impact''"
  have "js_match (str ''<!-- '' @ tag @ str '':'' @ cid @ str '' -->'')
          (markerRe (str ''spectr-pr-impact'' @ str '':'')) = None"
    by (rule markerRe_wrong_tag) (use a tag_pr_id in \<open>auto simp: str_def\<close>)
  then show "extractChangeIdFromComment (str ''<!-- '' @ tag @ str '':'' @ cid @ str '' -->'') = None"
    by (simp add: extractChangeIdFromComment_def PR_IMPACT_MARKER_PATTERN_eq str_def)
next
  show "extractChangeIdFromBody (generateChangeIdMarker []) = None"
    by (simp add: extractChangeIdFromBody_def generateChangeIdMarker_def js_match_def
        CHANGE_ID_MARKER_PATTERN_def matchHere_def str_def isWhiteSpace_def isLineTerminator_def
        isIdChar_def)
  show "extractChangeIdFromComment (generatePRImpactMarker []) = None"
    by (simp add: extractChangeIdFromComment_def generatePRImpactMarker_def js_match_def
        PR_IMPACT_MARKER_PATTERN_def matchHere_def str_def isWhiteSpace_def isLineTerminator_def
        isIdChar_def)
qed


theorem marker_round_trip_witness:
  "extractChangeIdFromBody (generateChangeIdMarker (str ''add-feature'')) = Some (str ''add-feature'')
   \<and> extractChangeIdFromComment (generatePRImpactMarker (str ''add-feature'')) = Some (str ''add-feature'')
   \<and> extractChangeIdFromBody (str ''<!-- '' @ str ''spectr-id'' @ str '':'' @ str ''add-feature'' @ str '' -->'') = None
   \<and> extractChangeIdFromComment (str ''<!-- '' @ str ''spectr-change-id'' @ str '':'' @ str ''add-feature'' @ str '' -->'') = None"
  using marker_round_trip [of "str ''add-feature''" "str ''spectr-id''"]
    marker_round_trip [of "str ''add-feature''" "str ''spectr-change-id''"]
  by (simp add: str_def isIdChar_def)

section \<open>Branch names\<close>

text \<open>
  Claim C8. \<open>parseSpectrBranch\<close> maps \<open>spectr/proposal/add-feature\<close> to a spectr branch
  of mode \<open>proposal\<close> with change id \<open>add-feature\<close>, maps \<open>main\<close> to the result without
  mode and change id, and treats \<open>spectr/proposal/\<close>, whose id is empty, like \<open>main\<close>.
\<close>

theorem parseSpectrBranch_scenarios:
  "parseSpectrBranch (str ''spectr/proposal/add-feature'')
     = \<lparr>bi_isSpectrBranch = True, bi_mode = Some (str ''proposal''),
        bi_changeId = Some (str ''add-feature'')\<rparr>
   \<and> parseSpectrBranch (str ''main'')
     = \<lparr>bi_isSpectrBranch = False, bi_mode = None, bi_changeId = None\<rparr>
   \<and> parseSpectrBranch (str ''spectr/proposal/'')
     = \<lparr>bi_isSpectrBranch = False, bi_mode = None, bi_changeId = None\<rparr>"
  by (simp add: parseSpectrBranch_def js_match_def SPECTR_BRANCH_PATTERN_def matchHere_def
      str_def isDot_def isLineTerminator_def)

lemma rmatch_Rep_whole:
  assumes "\<forall>u\<in>set w. P u" "lo \<le> length w" "k (i + length w, []) c = Some r"
  shows "rmatch (Rep P lo) (i, w) c k = Some r"
  using rmatch_Rep_all [of w P "[]" lo k i c r] assms by simp

lemma branch_tail:
  assumes "rest \<noteq> []" "\<forall>u\<in>set rest. \<not> isLineTerminator u"
  shows "rmatch (seqs [Lit (str ''/''), Grp 2 (Rep isDot 1), Eol False]) (i, 0x2F # rest) c
           (\<lambda>st' c'. Some (st', c'))
         = Some ((i + 1 + length rest, []), c(2 \<mapsto> rest))"
proof -
  have "rmatch (Rep isDot 1) (i + 1, rest) c
          (\<lambda>st' c'. rmatch (Eol False) st' (c'(2 \<mapsto> take (fst st' - (i + 1)) rest))
             (\<lambda>st' c'. Some (st', c')))
        = Some ((i + 1 + length rest, []), c(2 \<mapsto> rest))"
    by (rule rmatch_Rep_whole) (use assms in \<open>auto simp: isDot_def Suc_le_eq\<close>)
  then show ?thesis by (simp add: str_def)
qed

lemma parseSpectrBranch_modes:
  assumes "m = str ''proposal'' \<or> m = str ''archive'' \<or> m = str ''remove''"
    and "rest \<noteq> []" "\<forall>u\<in>set rest. \<not> isLineTerminator u"
  shows "parseSpectrBranch (str ''spectr/'' @ m @ str ''/'' @ rest)
         = \<lparr>bi_isSpectrBranch = True, bi_mode = Some m, bi_changeId = Some rest\<rparr>"
proof -
  let ?tail = "seqs [Lit (str ''/''), Grp 2 (Rep isDot 1), Eol False]"
  have pat: "SPECTR_BRANCH_PATTERN =
      Seq Bol (Seq (Lit (str ''spectr/''))
        (Seq (Grp 1 (Alt (Lit (str ''proposal'')) (Alt (Lit (str ''archive'')) (Lit (str ''remove'')))))
             ?tail))"
    by (simp add: SPECTR_BRANCH_PATTERN_def)
  have "\<exists>st. matchHere SPECTR_BRANCH_PATTERN (0, str ''spectr/'' @ m @ str ''/'' @ rest)
          = Some (st, [1 \<mapsto> m, 2 \<mapsto> rest])"
    using assms(1)
  proof (elim disjE)
    assume m: "m = str ''proposal''"
    show ?thesis
      unfolding pat matchHere_def m
      using branch_tail [OF assms(2,3)]
      by (simp add: str_def del: seqs.simps)
  next
    assume m: "m = str ''archive''"
    show ?thesis
      unfolding pat matchHere_def m
      using branch_tail [OF assms(2,3)]
      by (simp add: str_def del: seqs.simps)
  next
    assume m: "m = str ''remove''"
    show ?thesis
      unfolding pat matchHere_def m
      using branch_tail [OF assms(2,3)]
      by (simp add: str_def del: seqs.simps)
  qed
  then obtain st where
    "matchHere SPECTR_BRANCH_PATTERN (0, str ''spectr/'' @ m @ str ''/'' @ rest)
       = Some (st, [1 \<mapsto> m, 2 \<mapsto> rest])" by blast
  from searchFrom_here [OF this] show ?thesis
    by (simp add: parseSpectrBranch_def js_match_def)
qed

lemma extract_is_id:
  "extractChangeIdFromBody body = Some x \<Longrightarrow> x \<noteq> [] \<and> (\<forall>u\<in>set x. isIdChar u)"
  "extractChangeIdFromComment body = Some x \<Longrightarrow> x \<noteq> [] \<and> (\<forall>u\<in>set x. isIdChar u)"
  unfolding extractChangeIdFromBody_def extractChangeIdFromComment_def
    CHANGE_ID_MARKER_PATTERN_eq PR_IMPACT_MARKER_PATTERN_eq
  by (auto split: option.splits dest!: markerRe_capture)

text \<open>
  Claim C10, as amended. For every branch name \<open>spectr/<mode>/<rest>\<close> whose mode is one
  of the three and whose rest is non-empty, has no line terminator, and has a unit
  outside \<open>[a-zA-Z0-9_-]\<close> (a further slash is one), \<open>parseSpectrBranch\<close> returns a
  spectr branch whose change id is the whole rest; no text at all gives this id back
  through a marker pattern, so the id does not survive the round trip through a marker.
\<close>

theorem branch_remainder_is_no_marker_id:
  assumes "m = str ''proposal'' \<or> m = str ''archive'' \<or> m = str ''remove''"
    and "rest \<noteq> []" "\<forall>u\<in>set rest. \<not> isLineTerminator u" "\<exists>u\<in>set rest. \<not> isIdChar u"
  shows "parseSpectrBranch (str ''spectr/'' @ m @ str ''/'' @ rest)
           = \<lparr>bi_isSpectrBranch = True, bi_mode = Some m, bi_changeId = Some rest\<rparr>
         \<and> extractChangeIdFromComment body \<noteq> Some rest
         \<and> extractChangeIdFromBody body \<noteq> Some rest"
  using parseSpectrBranch_modes [OF assms(1,2,3)] assms(4) extract_is_id [of body rest]
  by blast

theorem branch_remainder_is_no_marker_id_witness:
  "parseSpectrBranch (str ''spectr/proposal/a/b'')
     = \<lparr>bi_isSpectrBranch = True, bi_mode = Some (str ''proposal''), bi_changeId = Some (str ''a/b'')\<rparr>
   \<and> extractChangeIdFromComment (generatePRImpactMarker (str ''a/b'')) \<noteq> Some (str ''a/b'')
   \<and> extractChangeIdFromBody (generateChangeIdMarker (str ''a/b'')) \<noteq> Some (str ''a/b'')"
  using branch_remainder_is_no_marker_id [of "str ''proposal''" "str ''a/b''" "generatePRImpactMarker (str ''a/b'')"]
    branch_remainder_is_no_marker_id [of "str ''proposal''" "str ''a/b''" "generateChangeIdMarker (str ''a/b'')"]
  by (simp add: str_def isLineTerminator_def isIdChar_def)

text \<open>
  The claim as stated, for every non-empty rest with a unit outside the class, fails: the
  dot of \<open>(.+)\<close> matches no line terminator and \<open>$\<close> has no \<open>m\<close> flag, so a rest with
  the line separator U+2028, which a ref name may hold, is not a spectr branch.
\<close>

theorem branch_line_separator_counterexample:
  "str ''a'' @ [0x2028] @ str ''b'' \<noteq> []
   \<and> 0x2028 \<in> set (str ''a'' @ [0x2028] @ str ''b'')
   \<and> \<not> isIdChar 0x2028
   \<and> parseSpectrBranch (str ''spectr/proposal/'' @ (str ''a'' @ [0x2028] @ str ''b''))
       = \<lparr>bi_isSpectrBranch = False, bi_mode = None, bi_changeId = None\<rparr>"
  by (simp add: parseSpectrBranch_def js_match_def SPECTR_BRANCH_PATTERN_def matchHere_def
      str_def isDot_def isLineTerminator_def isIdChar_def)

lemma matchHere_Rep1:
  "matchHere (Rep P (Suc 0)) (i, s) =
     (if s \<noteq> [] \<and> P (hd s)
      then Some ((i + length (takeWhile P s), dropWhile P s), \<lambda>_. None) else None)"
proof (cases "s \<noteq> [] \<and> P (hd s)")
  case True
  then have "Suc 0 \<le> length (takeWhile P s)" by (cases s) auto
  then have "greedy (length (takeWhile P s)) (Suc 0) (\<lambda>j. Some ((i + j, drop j s), \<lambda>_. None))
      = Some ((i + length (takeWhile P s), drop (length (takeWhile P s)) s), \<lambda>_. None)"
    by (rule greedy_top) simp
  with True show ?thesis by (simp add: matchHere_def dropWhile_eq_drop)
next
  case False
  then have "takeWhile P s = []" by (cases s) auto
  with False show ?thesis by (simp add: matchHere_def)
qed

lemma replaceFrom_ws_Nil: "replaceFrom (Rep P (Suc 0)) rep i [] = []"
  by (subst replaceFrom.simps) (simp add: matchHere_Rep1)

lemma replaceFrom_ws_Cons:
  "replaceFrom (Rep P (Suc 0)) rep i (x # xs) =
     (if P x then rep @ replaceFrom (Rep P (Suc 0)) rep (i + length (takeWhile P (x # xs))) (dropWhile P xs)
      else x # replaceFrom (Rep P (Suc 0)) rep (Suc i) xs)"
proof -
  have "length (dropWhile P xs) < Suc (length xs)"
    using length_dropWhile_le [of P xs] by simp
  then show ?thesis
    by (subst replaceFrom.simps) (simp add: matchHere_Rep1)
qed

lemma collapseRuns_ws:
  "isWhiteSpace c \<Longrightarrow> collapseRuns (c # cs) = 0x20 # collapseRuns (dropWhile isWhiteSpace cs)"
  by (induction cs arbitrary: c) auto

lemma collapseRuns_non_ws:
  "\<not> isWhiteSpace c \<Longrightarrow> collapseRuns (c # cs) = c # collapseRuns cs"
  by (cases cs) auto

lemma replace_ws_is_collapseRuns:
  "replaceFrom (Rep isWhiteSpace (Suc 0)) [0x20] i s = collapseRuns s"
proof (induction "length s" arbitrary: s i rule: less_induct)
  case less
  show ?case
  proof (cases s)
    case Nil
    then show ?thesis by (simp add: replaceFrom_ws_Nil)
  next
    case (Cons x xs)
    show ?thesis
    proof (cases "isWhiteSpace x")
      case True
      have "length (dropWhile isWhiteSpace xs) < length s"
        using length_dropWhile_le [of isWhiteSpace xs] Cons by simp
      from less [OF this] True show ?thesis
        unfolding Cons by (simp add: replaceFrom_ws_Cons collapseRuns_ws)
    next
      case False
      have "length xs < length s" using Cons by simp
      from less [OF this] False show ?thesis
        unfolding Cons by (simp add: replaceFrom_ws_Cons collapseRuns_non_ws)
    qed
  qed
qed

lemma normalizeComment_eq: "normalizeComment s = collapsedAndTrimmed s"
  by (simp add: normalizeComment_def collapsedAndTrimmed_def replaceAll_def str_def
      replace_ws_is_collapseRuns)


lemma tokens_cong:
  "tokens cs = tokens cs' \<Longrightarrow> startsNonWs cs = startsNonWs cs' \<Longrightarrow> tokens (c # cs) = tokens (c # cs')"
  by simp

lemma tokens_ws_prefix: "\<forall>u\<in>set w. isWhiteSpace u \<Longrightarrow> tokens (w @ s) = tokens s"
  by (induction w) auto

lemma startsNonWs_append_ws:
  "\<forall>u\<in>set w. isWhiteSpace u \<Longrightarrow> startsNonWs (s @ w) = startsNonWs s"
  by (cases s; cases w) (auto simp: startsNonWs_def)

lemma tokens_ws_suffix: "\<forall>u\<in>set w. isWhiteSpace u \<Longrightarrow> tokens (s @ w) = tokens s"
proof (induction s)
  case Nil
  then show ?case using tokens_ws_prefix [of w "[]"] by simp
next
  case (Cons c s)
  have "tokens (c # (s @ w)) = tokens (c # s)"
    by (rule tokens_cong) (use Cons in \<open>auto simp: startsNonWs_append_ws\<close>)
  then show ?case by simp
qed

lemma tokens_trimStart: "tokens (trimStart s) = tokens s"
proof -
  have "tokens (takeWhile isWhiteSpace s @ dropWhile isWhiteSpace s) = tokens (dropWhile isWhiteSpace s)"
    by (rule tokens_ws_prefix) (auto dest: set_takeWhileD)
  then show ?thesis by (simp add: trimStart_def)
qed

lemma trimEnd_append: "trimEnd s @ rev (takeWhile isWhiteSpace (rev s)) = s"
proof -
  have "rev (takeWhile isWhiteSpace (rev s) @ dropWhile isWhiteSpace (rev s)) = s" by simp
  then show ?thesis unfolding trimEnd_def rev_append .
qed

lemma tokens_trimEnd: "tokens (trimEnd s) = tokens s"
proof -
  have "tokens (trimEnd s @ rev (takeWhile isWhiteSpace (rev s))) = tokens (trimEnd s)"
    by (rule tokens_ws_suffix) (auto dest: set_takeWhileD)
  then show ?thesis by (simp only: trimEnd_append)
qed

lemma tokens_trim: "tokens (trim s) = tokens s"
  by (simp add: trim_def tokens_trimEnd tokens_trimStart)

lemma ws_space: "isWhiteSpace 0x20"
  by (simp add: isWhiteSpace_def)

lemma startsNonWs_tokens: "startsNonWs s \<Longrightarrow> tokens s \<noteq> []"
proof (cases s)
  case Nil
  then show "startsNonWs s \<Longrightarrow> tokens s \<noteq> []" by (simp add: startsNonWs_def)
next
  case (Cons c cs)
  assume "startsNonWs s"
  then have "\<not> isWhiteSpace c" using Cons by (simp add: startsNonWs_def)
  then show "tokens s \<noteq> []" unfolding Cons by (cases "tokens cs") simp_all
qed

lemma tokens_non_empty: "t \<in> set (tokens s) \<Longrightarrow> t \<noteq> []"
proof (induction s arbitrary: t)
  case Nil
  then show ?case by simp
next
  case (Cons c cs)
  show ?case
  proof (cases "tokens cs")
    case Nil
    with Cons.prems show ?thesis by (simp split: if_splits)
  next
    case (Cons t' ts)
    then have "t' \<noteq> []" "\<And>u. u \<in> set ts \<Longrightarrow> u \<noteq> []" using Cons.IH by simp_all
    with Cons.prems Cons show ?thesis by (auto split: if_splits)
  qed
qed

lemma join_Cons_Cons: "join ((c # t) # ts) sep = c # join (t # ts) sep"
  by (cases ts) auto

lemma join_tokens_non_empty: "tokens s \<noteq> [] \<Longrightarrow> join (tokens s) sep \<noteq> []"
proof -
  assume "tokens s \<noteq> []"
  then obtain t ts where ts: "tokens s = t # ts" by (cases "tokens s") auto
  then have "t \<noteq> []" using tokens_non_empty [of t s] by simp
  then show ?thesis unfolding ts by (cases ts) auto
qed

lemma trimEnd_Nil_iff: "trimEnd s = [] \<longleftrightarrow> (\<forall>u\<in>set s. isWhiteSpace u)"
  by (auto simp: trimEnd_def dropWhile_eq_Nil_conv)

lemma trimEnd_Cons:
  "trimEnd (c # s) = (if isWhiteSpace c \<and> trimEnd s = [] then [] else c # trimEnd s)"
  by (auto simp: trimEnd_def dropWhile_append dropWhile_eq_Nil_conv)

text \<open>The collapsed text without its trailing whitespace, in terms of the tokens.\<close>

lemma trimEnd_collapseRuns:
  "trimEnd (collapseRuns s) =
     (if s = [] \<or> startsNonWs s then join (tokens s) [0x20]
      else if tokens s = [] then [] else 0x20 # join (tokens s) [0x20])"
proof (induction s)
  case Nil
  then show ?case by (simp add: trimEnd_def)
next
  case (Cons c s)
  show ?case
  proof (cases "isWhiteSpace c")
    case ws: True
    show ?thesis
    proof (cases s)
      case Nil
      with ws show ?thesis by (simp add: trimEnd_Cons startsNonWs_def trimEnd_def ws_space)
    next
      case (Cons d ds)
      show ?thesis
      proof (cases "isWhiteSpace d")
        case True
        with ws Cons Cons.IH show ?thesis by (simp add: startsNonWs_def)
      next
        case False
        then have sn: "startsNonWs s" using Cons by (simp add: startsNonWs_def)
        then have ne: "join (tokens s) [0x20] \<noteq> []"
          by (intro join_tokens_non_empty startsNonWs_tokens)
        have "collapseRuns (c # s) = 0x20 # collapseRuns s"
          using ws False Cons by simp
        moreover have "trimEnd (collapseRuns s) = join (tokens s) [0x20]"
          using Cons.IH sn by simp
        ultimately show ?thesis
          using ws sn ne startsNonWs_tokens [OF sn]
          by (simp add: trimEnd_Cons startsNonWs_def ws_space)
      qed
    qed
  next
    case nws: False
    have cr: "collapseRuns (c # s) = c # collapseRuns s"
      using nws by (rule collapseRuns_non_ws)
    have sn: "startsNonWs (c # s)" using nws by (simp add: startsNonWs_def)
    show ?thesis
    proof (cases "s = []")
      case True
      with nws show ?thesis by (simp add: trimEnd_Cons trimEnd_def startsNonWs_def)
    next
      case ne: False
      show ?thesis
      proof (cases "startsNonWs s")
        case True
        then obtain t ts where ts: "tokens s = t # ts"
          using startsNonWs_tokens by (cases "tokens s") auto
        have "trimEnd (collapseRuns s) = join (t # ts) [0x20]"
          using Cons.IH True ts by simp
        then show ?thesis
          using nws True ts sn by (simp add: cr trimEnd_Cons join_Cons_Cons)
      next
        case False
        have ih: "trimEnd (collapseRuns s)
                  = (if tokens s = [] then [] else 0x20 # join (tokens s) [0x20])"
          using Cons.IH False ne by simp
        show ?thesis
        proof (cases "tokens s")
          case Nil
          with ih nws False sn show ?thesis by (simp add: cr trimEnd_Cons)
        next
          case (Cons t ts)
          with ih nws False sn show ?thesis by (simp add: cr trimEnd_Cons)
        qed
      qed
    qed
  qed
qed

lemma trimStart_collapseRuns:
  "r = [] \<or> startsNonWs r \<Longrightarrow> trimStart (collapseRuns r) = collapseRuns r"
  by (cases r) (auto simp: trimStart_def startsNonWs_def collapseRuns_non_ws)

lemma collapsedAndTrimmed_tokens: "collapsedAndTrimmed s = join (tokens s) [0x20]"
proof (cases "s = [] \<or> startsNonWs s")
  case True
  then have "trimStart (collapseRuns s) = collapseRuns s"
    by (rule trimStart_collapseRuns)
  with True show ?thesis
    by (simp add: collapsedAndTrimmed_def trim_def trimEnd_collapseRuns)
next
  case False
  then obtain c cs where s: "s = c # cs" and ws: "isWhiteSpace c"
    by (cases s) (auto simp: startsNonWs_def)
  let ?r = "dropWhile isWhiteSpace cs"
  have r: "?r = [] \<or> startsNonWs ?r"
    using hd_dropWhile [of isWhiteSpace cs] by (cases ?r) (auto simp: startsNonWs_def)
  have "collapseRuns s = 0x20 # collapseRuns ?r" unfolding s using ws by (rule collapseRuns_ws)
  then have "trimStart (collapseRuns s) = trimStart (collapseRuns ?r)"
    by (simp add: trimStart_def ws_space)
  also have "\<dots> = collapseRuns ?r"
    using r by (rule trimStart_collapseRuns)
  finally have "collapsedAndTrimmed s = join (tokens ?r) [0x20]"
    using r by (simp add: collapsedAndTrimmed_def trim_def trimEnd_collapseRuns)
  moreover have "tokens s = tokens ?r"
    using tokens_trimStart [of s] ws unfolding s by (simp add: trimStart_def)
  ultimately show ?thesis by simp
qed


text \<open>The two replacements of \<open>normalizeBody\<close> keep the tokens.\<close>

lemma matchHere_Lit:
  "matchHere (Lit l) (i, s) =
     (if startsWith s l then Some ((i + length l, drop (length l) s), \<lambda>_. None) else None)"
  by (simp add: matchHere_def)

lemma replace_crlf_tokens:
  "tokens (replaceFrom (Lit [0x0D, 0x0A]) [0x0A] i s) = tokens s
   \<and> startsNonWs (replaceFrom (Lit [0x0D, 0x0A]) [0x0A] i s) = startsNonWs s"
proof (induction "length s" arbitrary: s i rule: less_induct)
  case less
  let ?r = "Lit [0x0D, 0x0A]"
  have ws: "isWhiteSpace 0x0D" "isWhiteSpace 0x0A"
    by (simp_all add: isWhiteSpace_def isLineTerminator_def)
  show ?case
  proof (cases "startsWith s [0x0D, 0x0A]")
    case True
    then obtain s' where s: "s = 0x0D # 0x0A # s'"
      by (cases s; cases "tl s") (auto)
    have rf: "replaceFrom ?r [0x0A] i s = 0x0A # replaceFrom ?r [0x0A] (i + 2) s'"
      unfolding s by (subst replaceFrom.simps) (simp add: matchHere_Lit)
    have "length s' < length s" using s by simp
    from less [OF this, of "i + 2"] ws show ?thesis
      unfolding rf unfolding s by (simp add: startsNonWs_def)
  next
    case False
    show ?thesis
    proof (cases s)
      case Nil
      have "replaceFrom ?r [0x0A] i [] = []"
        by (subst replaceFrom.simps) (simp add: matchHere_Lit)
      then show ?thesis using Nil by simp
    next
      case (Cons x xs)
      have "matchHere ?r (i, s) = None" using False by (simp add: matchHere_Lit)
      then have rf: "replaceFrom ?r [0x0A] i s = x # replaceFrom ?r [0x0A] (Suc i) xs"
        by (subst replaceFrom.simps) (simp add: Cons)
      have "length xs < length s" using Cons by simp
      from less [OF this, of "Suc i"] show ?thesis
        unfolding rf unfolding Cons by (simp add: startsNonWs_def)
    qed
  qed
qed

lemma matchHere_trailing_SomeD:
  assumes "matchHere (Seq (Rep isWhiteSpace (Suc 0)) (Eol True)) (i, s) = Some ((i', s'), c)"
  shows "\<exists>w. w \<noteq> [] \<and> (\<forall>u\<in>set w. isWhiteSpace u) \<and> s = w @ s' \<and> \<not> startsNonWs s'"
proof -
  from assms have "rmatch (Rep isWhiteSpace (Suc 0)) (i, s) (\<lambda>_. None)
      (\<lambda>st' c'. rmatch (Eol True) st' c' (\<lambda>st' c'. Some (st', c'))) = Some ((i', s'), c)"
    by (simp add: matchHere_def)
  from rmatch_Rep_SomeD [OF this] obtain j where
    j: "Suc 0 \<le> j" "\<forall>u\<in>set (take j s). isWhiteSpace u" "s = take j s @ drop j s"
       "length (take j s) = j"
    and e: "rmatch (Eol True) (i + j, drop j s) (\<lambda>_. None) (\<lambda>st' c'. Some (st', c')) = Some ((i', s'), c)"
    by blast
  from e have s': "s' = drop j s" and lt: "s' = [] \<or> isLineTerminator (hd s')"
    by (auto split: if_splits)
  from lt have "\<not> startsNonWs s'"
    by (cases s') (auto simp: startsNonWs_def isWhiteSpace_def)
  moreover have "take j s \<noteq> []" using j(1,4) by auto
  ultimately show ?thesis using j(2,3) s' by blast
qed

lemma replace_trailing_tokens:
  "tokens (replaceFrom (Seq (Rep isWhiteSpace (Suc 0)) (Eol True)) [] i s) = tokens s
   \<and> startsNonWs (replaceFrom (Seq (Rep isWhiteSpace (Suc 0)) (Eol True)) [] i s) = startsNonWs s"
proof (induction "length s" arbitrary: s i rule: less_induct)
  case less
  let ?r = "Seq (Rep isWhiteSpace (Suc 0)) (Eol True)"
  show ?case
  proof (cases "matchHere ?r (i, s)")
    case None
    show ?thesis
    proof (cases s)
      case Nil
      have "replaceFrom ?r [] i s = []"
        using None by (subst replaceFrom.simps) (simp add: Nil)
      then show ?thesis using Nil by simp
    next
      case (Cons x xs)
      have rf: "replaceFrom ?r [] i s = x # replaceFrom ?r [] (Suc i) xs"
        using None by (subst replaceFrom.simps) (simp add: Cons)
      have "length xs < length s" using Cons by simp
      from less [OF this, of "Suc i"] show ?thesis
        unfolding rf unfolding Cons by (simp add: startsNonWs_def)
    qed
  next
    case (Some m)
    then obtain i' s' c where m: "matchHere ?r (i, s) = Some ((i', s'), c)"
      by (cases m) auto
    from matchHere_trailing_SomeD [OF m] obtain w where
      w: "w \<noteq> []" "\<forall>u\<in>set w. isWhiteSpace u" "s = w @ s'" "\<not> startsNonWs s'"
      by blast
    have len: "length s' < length s" using w(1,3) by simp
    have rf: "replaceFrom ?r [] i s = replaceFrom ?r [] i' s'"
      using m len by (subst replaceFrom.simps) simp
    have "tokens s = tokens s'" using tokens_ws_prefix [OF w(2), of s'] w(3) by simp
    moreover have "\<not> startsNonWs s"
      using w(1,2,3) by (cases w) (auto simp: startsNonWs_def)
    ultimately show ?thesis using less [OF len, of i'] w(4) by (simp add: rf)
  qed
qed

lemma tokens_normalizeBody: "tokens (normalizeBody s) = tokens s"
  by (simp add: normalizeBody_def replaceAll_def tokens_trim replace_trailing_tokens
      replace_crlf_tokens LF_def)

section \<open>Equivalence of bodies\<close>

lemma commentsMatch_collapsed:
  "commentsMatch a b \<longleftrightarrow> collapsedAndTrimmed a = collapsedAndTrimmed b"
  by (simp add: commentsMatch_def normalizeComment_eq)

lemma bodiesMatch_collapsed:
  assumes "bodiesMatch a b"
  shows "collapsedAndTrimmed a = collapsedAndTrimmed b"
proof -
  from assms have "tokens (normalizeBody a) = tokens (normalizeBody b)"
    by (simp add: bodiesMatch_def)
  then have "tokens a = tokens b" by (simp add: tokens_normalizeBody)
  then show ?thesis by (simp add: collapsedAndTrimmed_tokens)
qed

text \<open>
  Claim C1. Two texts are equivalent for change detection exactly when they are identical
  after every run of whitespace (newlines included) has become one space and the result
  has been trimmed. \<open>commentsMatch\<close> is this equivalence, for all texts.
  \<open>bodiesMatch\<close> is not: the bodies \<open>a  b\<close> (two spaces) and \<open>a b\<close> are
  identical after collapsing and trimming, \<open>commentsMatch\<close> accepts them, and
  \<open>bodiesMatch\<close> rejects them. It keeps the length of a run of whitespace inside a
  line, while it does ignore whitespace before a line end, the number of blank lines, the
  form of the line break and whitespace around the text.
\<close>

theorem bodiesMatch_keeps_inner_runs:
  "(commentsMatch a b \<longleftrightarrow> collapsedAndTrimmed a = collapsedAndTrimmed b)
   \<and> collapsedAndTrimmed (str ''a  b'') = collapsedAndTrimmed (str ''a b'')
   \<and> commentsMatch (str ''a  b'') (str ''a b'')
   \<and> \<not> bodiesMatch (str ''a  b'') (str ''a b'')
   \<and> bodiesMatch (str ''a '' @ [LF, LF, LF] @ str ''b'' @ [0x0D, LF]) (str ''a'' @ [LF] @ str ''b'')
   \<and> bodiesMatch ([LF] @ str '' a'') (str ''a'')"
proof (intro conjI)
  show "commentsMatch a b \<longleftrightarrow> collapsedAndTrimmed a = collapsedAndTrimmed b"
    by (rule commentsMatch_collapsed)
  show "collapsedAndTrimmed (str ''a  b'') = collapsedAndTrimmed (str ''a b'')"
    by (simp add: collapsedAndTrimmed_def trim_def trimStart_def trimEnd_def str_def
        isWhiteSpace_def isLineTerminator_def)
  show "commentsMatch (str ''a  b'') (str ''a b'')"
    by (simp add: commentsMatch_collapsed collapsedAndTrimmed_def trim_def trimStart_def
        trimEnd_def str_def isWhiteSpace_def isLineTerminator_def)
  show "\<not> bodiesMatch (str ''a  b'') (str ''a b'')"
    by (simp add: bodiesMatch_def normalizeBody_def replaceAll_def replaceFrom.simps
        matchHere_def trim_def trimStart_def trimEnd_def str_def LF_def
        isWhiteSpace_def isLineTerminator_def)
  show "bodiesMatch (str ''a '' @ [LF, LF, LF] @ str ''b'' @ [0x0D, LF]) (str ''a'' @ [LF] @ str ''b'')"
    by (simp add: bodiesMatch_def normalizeBody_def replaceAll_def replaceFrom.simps
        matchHere_def trim_def trimStart_def trimEnd_def str_def LF_def
        isWhiteSpace_def isLineTerminator_def)
  show "bodiesMatch ([LF] @ str '' a'') (str ''a'')"
    by (simp add: bodiesMatch_def normalizeBody_def replaceAll_def replaceFrom.simps
        matchHere_def trim_def trimStart_def trimEnd_def str_def LF_def
        isWhiteSpace_def isLineTerminator_def)
qed

section \<open>Remote calls\<close>

lemma request_simp [simp]: "request W call log = (W log call, log @ [call])"
  by (simp add: request_def)

lemma bind_io_simp:
  "bind_io m f log = (case m log of (Inl e, log') \<Rightarrow> (Inl e, log') | (Inr x, log') \<Rightarrow> f x log')"
  by (simp add: bind_io_def)

lemma createIssue_run:
  "bind_io (createIssue W title body labels) (\<lambda>n. return_io r) log
   = (map_sum id (\<lambda>_. r) (W log (IssuesCreate title body labels)),
      log @ [IssuesCreate title body labels])"
  by (simp add: bind_io_def createIssue_def return_io_def split: sum.splits)

lemma updateIssue_run:
  "bind_io (updateIssue W n title body labels) (\<lambda>_. return_io r) log
   = (map_sum id (\<lambda>_. r) (W log (IssuesUpdate n title body labels)),
      log @ [IssuesUpdate n title body labels])"
  by (simp add: bind_io_def updateIssue_def return_io_def split: sum.splits)

lemma reopenIssue_run:
  "bind_io (reopenIssue W n) f log
   = (case W log (IssuesUpdateState n Open None) of
        Inl e \<Rightarrow> (Inl e, log @ [IssuesUpdateState n Open None])
      | Inr _ \<Rightarrow> f () (log @ [IssuesUpdateState n Open None]))"
  by (simp add: bind_io_def reopenIssue_def return_io_def split: sum.splits)

section \<open>The decision for an active change\<close>

text \<open>
  Claim C2. For an active proposal, with the rendered title and body: without an
  existing issue the issue is created and the result is \<open>created\<close>; with an existing issue
  and updates disabled nothing is sent and the result is \<open>skipped\<close>; with a closed issue
  (updates enabled) the issue is reopened and then updated whatever its title and body
  are, and the result is \<open>updated\<close>; with an open issue whose title is the rendered title
  and whose body matches the rendered body nothing is sent; otherwise the issue is
  updated. A call that fails ends the procedure with its error; the calls sent until then
  are in the log.
\<close>

theorem syncActiveChange_decision:
  "(let title = formatIssueTitle (cp_id change) config;
        body = formatIssueBody change;
        create = IssuesCreate title body labels;
        reopen = IssuesUpdateState (mi_number issue) Open None;
        update = IssuesUpdate (mi_number issue) title body labels
    in syncActiveChange W change config labels None log
         = (map_sum id (\<lambda>_. Created) (W log create), log @ [create])
       \<and> (\<not> cfg_updateExisting config \<longrightarrow>
            syncActiveChange W change config labels (Some issue) log = (Inr Skipped, log))
       \<and> (cfg_updateExisting config \<and> mi_state issue = Closed \<longrightarrow>
            syncActiveChange W change config labels (Some issue) log
              = (case W log reopen of
                   Inl e \<Rightarrow> (Inl e, log @ [reopen])
                 | Inr _ \<Rightarrow> (map_sum id (\<lambda>_. Updated) (W (log @ [reopen]) update),
                             log @ [reopen, update])))
       \<and> (cfg_updateExisting config \<and> mi_state issue = Open
            \<and> mi_title issue = title \<and> bodiesMatch (mi_body issue) body \<longrightarrow>
            syncActiveChange W change config labels (Some issue) log = (Inr Skipped, log))
       \<and> (cfg_updateExisting config \<and> mi_state issue = Open
            \<and> \<not> (mi_title issue = title \<and> bodiesMatch (mi_body issue) body) \<longrightarrow>
            syncActiveChange W change config labels (Some issue) log
              = (map_sum id (\<lambda>_. Updated) (W log update), log @ [update])))"
  unfolding Let_def syncActiveChange_def
  by (auto simp: createIssue_run updateIssue_run reopenIssue_run return_io_def
      split: sum.splits)


theorem syncActiveChange_decision_witness:
  "syncActiveChange exampleRemote exampleChange (exampleConfig True) [str ''spectr''] None []
     = (Inr Created,
        [IssuesCreate (str ''[Spectr] add-feature'') (formatIssueBody exampleChange) [str ''spectr'']])
   \<and> syncActiveChange exampleRemote exampleChange (exampleConfig False) [str ''spectr'']
         (Some (exampleIssue Open (str ''old title'') (str ''old body''))) []
     = (Inr Skipped, [])
   \<and> syncActiveChange exampleRemote exampleChange (exampleConfig True) [str ''spectr'']
         (Some (exampleIssue Closed (str ''[Spectr] add-feature'') (formatIssueBody exampleChange))) []
     = (Inr Updated,
        [IssuesUpdateState 7 Open None,
         IssuesUpdate 7 (str ''[Spectr] add-feature'') (formatIssueBody exampleChange) [str ''spectr'']])
   \<and> syncActiveChange exampleRemote exampleChange (exampleConfig True) [str ''spectr'']
         (Some (exampleIssue Open (str ''[Spectr] add-feature'') (formatIssueBody exampleChange))) []
     = (Inr Skipped, [])
   \<and> syncActiveChange exampleRemote exampleChange (exampleConfig True) [str ''spectr'']
         (Some (exampleIssue Open (str ''old title'') (formatIssueBody exampleChange))) []
     = (Inr Updated,
        [IssuesUpdate 7 (str ''[Spectr] add-feature'') (formatIssueBody exampleChange) [str ''spectr'']])"
  using
    syncActiveChange_decision [where W = exampleRemote and change = exampleChange
      and config = "exampleConfig True" and labels = "[str ''spectr'']" and log = "[]"
      and issue = "exampleIssue Closed (str ''[Spectr] add-feature'') (formatIssueBody exampleChange)"]
    syncActiveChange_decision [where W = exampleRemote and change = exampleChange
      and config = "exampleConfig False" and labels = "[str ''spectr'']" and log = "[]"
      and issue = "exampleIssue Open (str ''old title'') (str ''old body'')"]
    syncActiveChange_decision [where W = exampleRemote and change = exampleChange
      and config = "exampleConfig True" and labels = "[str ''spectr'']" and log = "[]"
      and issue = "exampleIssue Open (str ''[Spectr] add-feature'') (formatIssueBody exampleChange)"]
    syncActiveChange_decision [where W = exampleRemote and change = exampleChange
      and config = "exampleConfig True" and labels = "[str ''spectr'']" and log = "[]"
      and issue = "exampleIssue Open (str ''old title'') (formatIssueBody exampleChange)"]
  by (simp add: Let_def bodiesMatch_def exampleIssue_def exampleConfig_def exampleChange_def
      exampleRemote_def formatIssueTitle_def str_def)

section \<open>Closing the issue of an archived change\<close>

lemma closeIssue_run:
  "text \<noteq> [] \<Longrightarrow>
   closeIssue W n (Some text) log
   = (case W log (IssuesCreateComment n text) of
        Inl e \<Rightarrow> (Inl e, log @ [IssuesCreateComment n text])
      | Inr _ \<Rightarrow>
          (map_sum id (\<lambda>_. ()) (W (log @ [IssuesCreateComment n text])
                                  (IssuesUpdateState n Closed (Some (str ''completed'')))),
           log @ [IssuesCreateComment n text, IssuesUpdateState n Closed (Some (str ''completed''))]))"
  by (simp add: closeIssue_def bind_io_def return_io_def split: sum.splits)

lemma ARCHIVED_COMMENT_non_empty: "ARCHIVED_COMMENT \<noteq> []"
  by (simp add: ARCHIVED_COMMENT_def str_def)

lemma closeIssue_archived_calls:
  "\<exists>calls. snd (closeIssue W n (Some ARCHIVED_COMMENT) log) = log @ calls
     \<and> (\<forall>previous. commentBeforeClose previous calls)"
proof (cases "W log (IssuesCreateComment n ARCHIVED_COMMENT)")
  case (Inl e)
  then have "snd (closeIssue W n (Some ARCHIVED_COMMENT) log)
             = log @ [IssuesCreateComment n ARCHIVED_COMMENT]"
    by (simp add: closeIssue_run ARCHIVED_COMMENT_non_empty)
  then show ?thesis by (intro exI [of _ "[IssuesCreateComment n ARCHIVED_COMMENT]"]) simp
next
  case (Inr k)
  then have "snd (closeIssue W n (Some ARCHIVED_COMMENT) log)
             = log @ [IssuesCreateComment n ARCHIVED_COMMENT,
                      IssuesUpdateState n Closed (Some (str ''completed''))]"
    by (simp add: closeIssue_run ARCHIVED_COMMENT_non_empty)
  then show ?thesis
    by (intro exI [of _ "[IssuesCreateComment n ARCHIVED_COMMENT,
                          IssuesUpdateState n Closed (Some (str ''completed''))]"]) simp
qed

lemma commentBeforeClose_append:
  "commentBeforeClose previous xs \<Longrightarrow> (\<forall>p. commentBeforeClose p ys)
   \<Longrightarrow> commentBeforeClose previous (xs @ ys)"
  by (induction xs arbitrary: previous) auto

lemma archivedLoop_calls:
  "\<exists>calls. snd (archivedLoop W issueMap changes (result, log)) = log @ calls
     \<and> (\<forall>previous. commentBeforeClose previous calls)"
proof (induction changes arbitrary: result log)
  case Nil
  show ?case by (intro exI [of _ "[]"]) simp
next
  case (Cons change changes)
  show ?case
  proof (cases "issueMap (cp_id change)")
    case None
    with Cons.IH [of result log] show ?thesis by simp
  next
    case (Some existingIssue)
    show ?thesis
    proof (cases "mi_state existingIssue = Open")
      case False
      with Some Cons.IH [of result log] show ?thesis by simp
    next
      case True
      obtain r log' where run:
        "closeIssue W (mi_number existingIssue) (Some ARCHIVED_COMMENT) log = (r, log')"
        by (cases "closeIssue W (mi_number existingIssue) (Some ARCHIVED_COMMENT) log")
      from closeIssue_archived_calls [of W "mi_number existingIssue" log] run
      obtain calls1 where c1: "log' = log @ calls1" "\<forall>p. commentBeforeClose p calls1"
        by auto
      obtain result' where step:
        "archivedLoop W issueMap (change # changes) (result, log)
         = archivedLoop W issueMap changes (result', log')"
        using Some True run by (cases r) auto
      from Cons.IH [of result' log'] obtain calls2 where
        c2: "snd (archivedLoop W issueMap changes (result', log')) = log' @ calls2"
            "\<forall>p. commentBeforeClose p calls2"
        by blast
      have "\<forall>p. commentBeforeClose p (calls1 @ calls2)"
        using c1(2) c2(2) by (simp add: commentBeforeClose_append)
      then show ?thesis
        unfolding step using c1(1) c2(1) by (intro exI [of _ "calls1 @ calls2"]) simp
    qed
  qed
qed

text \<open>
  Claim C7. When an issue is closed with a non-empty comment, the call that creates the
  comment is sent first and the call that sets the state to closed only after it has
  succeeded. In every run of the loop over the archived changes, for every remote side,
  every call that closes an issue directly follows the call that comments on the same
  issue; a closing call never comes first.
\<close>

theorem comment_precedes_close:
  "(msg \<noteq> [] \<longrightarrow>
      snd (closeIssue W n (Some msg) log)
        = log @ IssuesCreateComment n msg
            # (case W log (IssuesCreateComment n msg) of
                 Inl e \<Rightarrow> []
               | Inr _ \<Rightarrow> [IssuesUpdateState n Closed (Some (str ''completed''))]))
   \<and> (\<exists>calls. snd (closeArchived W config issueMap archivedChanges (result, log)) = log @ calls
         \<and> commentBeforeClose None calls)"
proof
  show "msg \<noteq> [] \<longrightarrow>
      snd (closeIssue W n (Some msg) log)
        = log @ IssuesCreateComment n msg
            # (case W log (IssuesCreateComment n msg) of
                 Inl e \<Rightarrow> []
               | Inr _ \<Rightarrow> [IssuesUpdateState n Closed (Some (str ''completed''))])"
    by (simp add: closeIssue_run split: sum.splits)
  show "\<exists>calls. snd (closeArchived W config issueMap archivedChanges (result, log)) = log @ calls
         \<and> commentBeforeClose None calls"
  proof (cases "cfg_closeOnArchive config")
    case True
    with archivedLoop_calls [of W issueMap archivedChanges result log] show ?thesis
      by (auto simp: closeArchived_def)
  next
    case False
    then show ?thesis by (intro exI [of _ "[]"]) (simp add: closeArchived_def)
  qed
qed

theorem comment_precedes_close_witness:
  "snd (closeIssue exampleRemote 7 (Some ARCHIVED_COMMENT) [])
     = [IssuesCreateComment 7 ARCHIVED_COMMENT,
        IssuesUpdateState 7 Closed (Some (str ''completed''))]
   \<and> snd (closeArchived exampleRemote (exampleConfig True)
            [str ''add-feature'' \<mapsto> exampleIssue Open (str ''t'') (str ''b'')]
            [exampleChange] (\<lparr>res_closed = 0, res_created = 0, res_errors = [],
                               res_totalChanges = 0, res_updated = 0\<rparr>, []))
     = [IssuesCreateComment 7 ARCHIVED_COMMENT,
        IssuesUpdateState 7 Closed (Some (str ''completed''))]"
proof
  show "snd (closeIssue exampleRemote 7 (Some ARCHIVED_COMMENT) [])
     = [IssuesCreateComment 7 ARCHIVED_COMMENT,
        IssuesUpdateState 7 Closed (Some (str ''completed''))]"
    using comment_precedes_close [where msg = ARCHIVED_COMMENT and W = exampleRemote
        and n = 7 and log = "[]"]
      ARCHIVED_COMMENT_non_empty
    by (simp add: exampleRemote_def)
  then show "snd (closeArchived exampleRemote (exampleConfig True)
            [str ''add-feature'' \<mapsto> exampleIssue Open (str ''t'') (str ''b'')]
            [exampleChange] (\<lparr>res_closed = 0, res_created = 0, res_errors = [],
                               res_totalChanges = 0, res_updated = 0\<rparr>, []))
     = [IssuesCreateComment 7 ARCHIVED_COMMENT,
        IssuesUpdateState 7 Closed (Some (str ''completed''))]"
    by (cases "closeIssue exampleRemote 7 (Some ARCHIVED_COMMENT) []")
       (auto simp: closeArchived_def exampleConfig_def exampleChange_def exampleIssue_def
          split: sum.splits)
qed

section \<open>Archive status\<close>

lemma anyEntry_iff:
  "anyEntry entries changeId
   \<longleftrightarrow> (\<exists>entry\<in>set entries. entry = changeId \<or> endsWith entry (str ''-'' @ changeId))"
  by (induction entries) auto

lemma checkArchiveStatus_iff:
  "checkArchiveStatus R changeId workspacePath
   \<longleftrightarrow> existsSync R (path_join R [workspacePath, str ''spectr'', str ''changes'', str ''archive''])
       \<and> (\<exists>entries. readdirSync R (path_join R [workspacePath, str ''spectr'', str ''changes'', str ''archive''])
                       = Inr entries
             \<and> (\<exists>entry\<in>set entries. entry = changeId \<or> endsWith entry (str ''-'' @ changeId)))"
  by (auto simp: checkArchiveStatus_def Let_def anyEntry_iff split: sum.splits)

lemma isDatedName_endsWith: "isDatedName changeId entry \<Longrightarrow> endsWith entry (str ''-'' @ changeId)"
proof -
  let ?p = "str ''-'' @ changeId"
  assume a: "isDatedName changeId entry"
  then have d: "drop 10 entry = ?p" and l: "length (take 10 entry) = 10"
    by (simp_all add: isDatedName_def dateShape_def)
  from l have l10: "10 \<le> length entry" by simp
  have "length (drop 10 entry) = length entry - 10" by simp
  with d have lp: "length ?p = length entry - 10" by simp
  with l10 have "length ?p \<le> length entry" "length entry - length ?p = 10" by arith+
  with d show ?thesis unfolding endsWith_def by simp
qed

text \<open>
  Claim C5. \<open>checkArchiveStatus\<close> is meant to hold exactly when the archive directory has
  an entry named like the change or \<open>YYYY-MM-DD-<id>\<close>. The code tests the suffix
  \<open>-<id>\<close> only: with the archive entry \<open>2025-12-10-add-issue-sync\<close> of this
  repository, the change \<open>sync\<close> counts as archived, although the entry is neither
  \<open>sync\<close> nor a date followed by \<open>-sync\<close>.
\<close>

theorem checkArchiveStatus_suffix_only:
  "checkArchiveStatus (exampleRuntime [str ''2025-12-10-add-issue-sync''] None) (str ''sync'') (str ''/repo'')
   \<and> str ''2025-12-10-add-issue-sync'' \<noteq> str ''sync''
   \<and> \<not> isDatedName (str ''sync'') (str ''2025-12-10-add-issue-sync'')"
  by (simp add: checkArchiveStatus_def exampleRuntime_def endsWith_def isDatedName_def str_def)

section \<open>Impact counts\<close>

lemma parseDeltaSpec_Inr: "\<exists>plan. parseDeltaSpec R filePath = Inr plan"
  by (simp add: parseDeltaSpec_def split: sum.splits)

lemma countOp_append [simp]: "countOp op (xs @ ys) = countOp op xs + countOp op ys"
  by (simp add: countOp_def)

lemma countOp_planChanges:
  "countOp OpAdd (planChanges cap plan) = length (plan_added plan)"
  "countOp OpModify (planChanges cap plan) = length (plan_modified plan)"
  "countOp OpRemove (planChanges cap plan) = length (plan_removed plan)"
  "countOp OpRename (planChanges cap plan) = length (plan_renamed plan)"
  by (simp_all add: countOp_def planChanges_def)

lemma impactLoop_counts:
  assumes "added counts = countOp OpAdd changes" "modified counts = countOp OpModify changes"
    "removed counts = countOp OpRemove changes" "renamed counts = countOp OpRename changes"
  shows "\<exists>changes' capabilities' counts'.
           impactLoop R specFiles (changes, capabilities, counts) = Inr (changes', capabilities', counts')
           \<and> added counts' = countOp OpAdd changes' \<and> modified counts' = countOp OpModify changes'
           \<and> removed counts' = countOp OpRemove changes' \<and> renamed counts' = countOp OpRename changes'"
  using assms
proof (induction specFiles arbitrary: changes capabilities counts)
  case Nil
  then show ?case by simp
next
  case (Cons specFile specFiles)
  obtain capabilityName filePath where sf: "specFile = (capabilityName, filePath)"
    by (cases specFile)
  obtain plan where plan: "parseDeltaSpec R filePath = Inr plan"
    using parseDeltaSpec_Inr by blast
  have "\<exists>changes' capabilities' counts'.
          impactLoop R specFiles (changes @ planChanges capabilityName plan,
             capabilities @ [capabilityName], planCounts plan counts)
            = Inr (changes', capabilities', counts')
          \<and> added counts' = countOp OpAdd changes' \<and> modified counts' = countOp OpModify changes'
          \<and> removed counts' = countOp OpRemove changes' \<and> renamed counts' = countOp OpRename changes'"
    by (rule Cons.IH) (use Cons.prems in \<open>simp_all add: planCounts_def countOp_planChanges\<close>)
  then show ?case by (simp add: sf plan)
qed

text \<open>
  Claim C3. For every change id, workspace, mode and file system, \<open>calculateSpecImpact\<close>
  returns an impact whose total is the sum of the four counts, and each of the four
  counts is the number of changes of its operation in the sequence of changes.
\<close>

theorem calculateSpecImpact_counts:
  "\<exists>impact. calculateSpecImpact R changeId workspacePath mode = Inr impact
     \<and> total (si_counts impact)
         = added (si_counts impact) + modified (si_counts impact)
           + removed (si_counts impact) + renamed (si_counts impact)
     \<and> added (si_counts impact) = countOp OpAdd (si_changes impact)
     \<and> modified (si_counts impact) = countOp OpModify (si_changes impact)
     \<and> removed (si_counts impact) = countOp OpRemove (si_changes impact)
     \<and> renamed (si_counts impact) = countOp OpRename (si_changes impact)"
proof -
  let ?zero = "\<lparr>added = 0, modified = 0, removed = 0, renamed = 0, total = 0\<rparr>"
  have "\<exists>changes' capabilities' counts'.
          impactLoop R (findDeltaSpecFiles R changeId workspacePath) ([], [], ?zero)
            = Inr (changes', capabilities', counts')
          \<and> added counts' = countOp OpAdd changes' \<and> modified counts' = countOp OpModify changes'
          \<and> removed counts' = countOp OpRemove changes' \<and> renamed counts' = countOp OpRename changes'"
    by (rule impactLoop_counts) (simp_all add: countOp_def)
  then show ?thesis by (auto simp: calculateSpecImpact_def Let_def)
qed

section \<open>Parsing never throws\<close>

lemma indexOf_None_section:
  "indexOf content (str ''## '' @ deltaTypeText dt @ str '' Requirements'') = None
   \<Longrightarrow> findDeltaSectionContent content dt = []"
  by (simp add: findDeltaSectionContent_def)

lemma parseDeltaSpec_read:
  "readFileSync R filePath = Inr content \<Longrightarrow> parseDeltaSpec R filePath = Inr (parseSections R content)"
  by (simp add: parseDeltaSpec_def parseDeltaSpec_try_def)

lemma parseDeltaSpec_unreadable:
  "isl (readFileSync R filePath) \<Longrightarrow> parseDeltaSpec R filePath = Inr emptyPlan"
  by (cases "readFileSync R filePath") (simp_all add: parseDeltaSpec_def parseDeltaSpec_try_def)

text \<open>\<open>indexOf\<close> finds a text exactly when it occurs, at any place.\<close>

lemma startsWith_prefix: "startsWith s p \<longleftrightarrow> prefix p s"
proof
  assume "startsWith s p"
  then have "s = p @ drop (length p) s" by (rule startsWithD)
  then show "prefix p s" by (metis prefixI)
next
  assume "prefix p s"
  then show "startsWith s p" by (auto simp: prefix_def)
qed

lemma indexOf_None_iff: "indexOf s p = None \<longleftrightarrow> \<not> sublist p s"
  by (induction s) (auto simp: startsWith_prefix sublist_Cons_right)

lemma indexOf_head: "indexOf (p @ r) p = Some 0"
proof (cases "p @ r")
  case Nil
  then show ?thesis by simp
next
  case (Cons c cs)
  have "startsWith (p @ r) p" by simp
  then show ?thesis unfolding Cons by simp
qed

lemma missing_section:
  "\<not> sublist (str ''## ADDED Requirements'') content \<Longrightarrow> findDeltaSectionContent content ADDED = []"
  "\<not> sublist (str ''## MODIFIED Requirements'') content \<Longrightarrow> findDeltaSectionContent content MODIFIED = []"
  "\<not> sublist (str ''## REMOVED Requirements'') content \<Longrightarrow> findDeltaSectionContent content REMOVED = []"
  "\<not> sublist (str ''## RENAMED Requirements'') content \<Longrightarrow> findDeltaSectionContent content RENAMED = []"
  using indexOf_None_section [of content ADDED] indexOf_None_section [of content MODIFIED]
    indexOf_None_section [of content REMOVED] indexOf_None_section [of content RENAMED]
  by (simp_all add: str_def indexOf_None_iff)

text \<open>A section with one requirement and, after it, a requirement header without a
  name.\<close>

lemma split_line: "sep \<notin> set a \<Longrightarrow> split (a @ sep # b) sep = a # split b sep"
  by (induction a) auto

lemma split_no_sep: "sep \<notin> set a \<Longrightarrow> split a sep = [a]"
  by (induction a) auto

lemma added_section_example:
  assumes "LF \<notin> set name"
  shows "findDeltaSectionContent
           (str ''## ADDED Requirements'' @ [LF] @ str ''### Requirement: '' @ name @ [LF]
            @ str ''### Requirement:'') ADDED
         = str ''### Requirement: '' @ name @ [LF] @ str ''### Requirement:''"
proof -
  let ?h = "str ''## ADDED Requirements''"
  let ?a = "str ''### Requirement: '' @ name"
  let ?b = "str ''### Requirement:''"
  have i: "indexOf (?h @ [LF] @ ?a @ [LF] @ ?b) ?h = Some 0" by (rule indexOf_head)
  have "LF \<notin> set ?a" "LF \<notin> set ?b" using assms by (simp_all add: str_def LF_def)
  then have s: "split (?a @ LF # ?b) LF = [?a, ?b]"
    using split_line [of LF ?a ?b] split_no_sep [of LF ?b] by simp
  have n: "nextH2Offset [?a, ?b] 0 = None"
    by (simp add: trimStart_def str_def isWhiteSpace_def isLineTerminator_def)
  have "findDeltaSectionContent (?h @ [LF] @ ?a @ [LF] @ ?b) ADDED = ?a @ LF # ?b"
    unfolding findDeltaSectionContent_def using i s n by (simp add: str_def)
  then show ?thesis by simp
qed

lemma matchRequirementHeader_named:
  assumes "name \<noteq> []" "\<not> isWhiteSpace (hd name)"
  shows "matchRequirementHeader (str ''### Requirement: '' @ name) = Some name"
proof -
  obtain n ns where nm: "name = n # ns" using assms(1) by (cases name) auto
  with assms(2) have n: "\<not> isWhiteSpace n" by simp
  have sp: "isWhiteSpace 0x20" by (simp add: isWhiteSpace_def)
  have t: "trimStart (0x20 # name) = name"
    unfolding nm trimStart_def using n sp by simp
  have r: "trimStart (drop 3 (str ''### Requirement: '' @ name)) = str ''Requirement: '' @ name"
    by (simp add: str_def trimStart_def isWhiteSpace_def isLineTerminator_def)
  show ?thesis
    unfolding matchRequirementHeader_def r Let_def
    using assms(1) by (simp add: str_def t orNull_def)
qed

lemma matchRequirementHeader_unnamed:
  "matchRequirementHeader (str ''### Requirement:'') = None"
  by (simp add: matchRequirementHeader_def str_def trimStart_def orNull_def Let_def
        isWhiteSpace_def isLineTerminator_def)

lemma added_requirement_kept:
  assumes "name \<noteq> []" "\<not> isWhiteSpace (hd name)" "LF \<notin> set name"
  shows "plan_added (parseSections R
           (str ''## ADDED Requirements'' @ [LF] @ str ''### Requirement: '' @ name @ [LF]
            @ str ''### Requirement:''))
         = [\<lparr>req_name = name, req_content = str ''### Requirement: '' @ name @ [LF]\<rparr>]"
proof -
  let ?a = "str ''### Requirement: '' @ name"
  let ?b = "str ''### Requirement:''"
  have "LF \<notin> set ?a" "LF \<notin> set ?b" using assms by (simp_all add: str_def LF_def)
  then have s: "split (?a @ LF # ?b) LF = [?a, ?b]"
    using split_line [of LF ?a ?b] split_no_sep [of LF ?b] by simp
  have h: "isH3Header ?b" by (simp add: isH3Header_def str_def)
  have l: "requirementsLoop [?a, ?b] [] None = [\<lparr>req_name = name, req_content = ?a @ [LF]\<rparr>]"
    using matchRequirementHeader_named [OF assms(1,2)] matchRequirementHeader_unnamed h
    by (simp add: pushReq_def)
  have ne: "?a @ LF # ?b \<noteq> []" by (simp add: str_def)
  have "parseRequirementsFromSection (?a @ LF # ?b) = [\<lparr>req_name = name, req_content = ?a @ [LF]\<rparr>]"
    unfolding parseRequirementsFromSection_def s l ..
  then show ?thesis
    using ne added_section_example [OF assms(3)]
    by (simp add: parseSections_def Let_def)
qed

text \<open>
  Claim C9, as amended. For every file path and file system, \<open>parseDeltaSpec\<close>
  returns a plan and does not throw. When the file cannot be read, the plan is empty.
  When the file has been read, a section whose header text occurs nowhere in the text
  gives an empty bucket, and a text in which none of the four header texts occurs gives
  the empty plan. A malformed structure is not detected and does not empty the plan: the
  plan holds the entries that the parser recognises. A file whose added section holds a
  requirement with a name and, after it, a requirement header without a name yields that
  requirement.
\<close>

theorem parseDeltaSpec_never_throws:
  "(\<exists>plan. parseDeltaSpec R filePath = Inr plan)
   \<and> (isl (readFileSync R filePath) \<longrightarrow> parseDeltaSpec R filePath = Inr emptyPlan)
   \<and> (readFileSync R filePath = Inr content \<longrightarrow>
        (\<not> sublist (str ''## ADDED Requirements'') content
           \<longrightarrow> plan_added (projr (parseDeltaSpec R filePath)) = [])
      \<and> (\<not> sublist (str ''## MODIFIED Requirements'') content
           \<longrightarrow> plan_modified (projr (parseDeltaSpec R filePath)) = [])
      \<and> (\<not> sublist (str ''## REMOVED Requirements'') content
           \<longrightarrow> plan_removed (projr (parseDeltaSpec R filePath)) = [])
      \<and> (\<not> sublist (str ''## RENAMED Requirements'') content
           \<longrightarrow> plan_renamed (projr (parseDeltaSpec R filePath)) = [])
      \<and> (\<not> sublist (str ''## ADDED Requirements'') content
         \<and> \<not> sublist (str ''## MODIFIED Requirements'') content
         \<and> \<not> sublist (str ''## REMOVED Requirements'') content
         \<and> \<not> sublist (str ''## RENAMED Requirements'') content
           \<longrightarrow> parseDeltaSpec R filePath = Inr emptyPlan))
   \<and> (name \<noteq> [] \<and> \<not> isWhiteSpace (hd name) \<and> LF \<notin> set name
      \<and> readFileSync R filePath
          = Inr (str ''## ADDED Requirements'' @ [LF] @ str ''### Requirement: '' @ name @ [LF]
                 @ str ''### Requirement:'')
        \<longrightarrow> plan_added (projr (parseDeltaSpec R filePath))
              = [\<lparr>req_name = name, req_content = str ''### Requirement: '' @ name @ [LF]\<rparr>]
            \<and> parseDeltaSpec R filePath \<noteq> Inr emptyPlan)"
proof (intro conjI impI)
  show "\<exists>plan. parseDeltaSpec R filePath = Inr plan" by (rule parseDeltaSpec_Inr)
  show "parseDeltaSpec R filePath = Inr emptyPlan" if "isl (readFileSync R filePath)"
    using that by (rule parseDeltaSpec_unreadable)
next
  assume r: "readFileSync R filePath = Inr content"
  note p = parseDeltaSpec_read [OF r]
  show "plan_added (projr (parseDeltaSpec R filePath)) = []"
    if "\<not> sublist (str ''## ADDED Requirements'') content"
    using missing_section(1) [OF that] by (simp add: p parseSections_def Let_def)
  show "plan_modified (projr (parseDeltaSpec R filePath)) = []"
    if "\<not> sublist (str ''## MODIFIED Requirements'') content"
    using missing_section(2) [OF that] by (simp add: p parseSections_def Let_def)
  show "plan_removed (projr (parseDeltaSpec R filePath)) = []"
    if "\<not> sublist (str ''## REMOVED Requirements'') content"
    using missing_section(3) [OF that] by (simp add: p parseSections_def Let_def)
  show "plan_renamed (projr (parseDeltaSpec R filePath)) = []"
    if "\<not> sublist (str ''## RENAMED Requirements'') content"
    using missing_section(4) [OF that] by (simp add: p parseSections_def Let_def)
  show "parseDeltaSpec R filePath = Inr emptyPlan"
    if "\<not> sublist (str ''## ADDED Requirements'') content
         \<and> \<not> sublist (str ''## MODIFIED Requirements'') content
         \<and> \<not> sublist (str ''## REMOVED Requirements'') content
         \<and> \<not> sublist (str ''## RENAMED Requirements'') content"
    using that missing_section [of content]
    by (simp add: p parseSections_def Let_def emptyPlan_def)
next
  assume a: "name \<noteq> [] \<and> \<not> isWhiteSpace (hd name) \<and> LF \<notin> set name
      \<and> readFileSync R filePath
          = Inr (str ''## ADDED Requirements'' @ [LF] @ str ''### Requirement: '' @ name @ [LF]
                 @ str ''### Requirement:'')"
  then have k: "plan_added (projr (parseDeltaSpec R filePath))
              = [\<lparr>req_name = name, req_content = str ''### Requirement: '' @ name @ [LF]\<rparr>]"
    using added_requirement_kept [of name R] by (simp add: parseDeltaSpec_read)
  show "plan_added (projr (parseDeltaSpec R filePath))
              = [\<lparr>req_name = name, req_content = str ''### Requirement: '' @ name @ [LF]\<rparr>]"
    by (rule k)
  show "parseDeltaSpec R filePath \<noteq> Inr emptyPlan"
  proof
    assume "parseDeltaSpec R filePath = Inr emptyPlan"
    with k show False by (simp add: emptyPlan_def)
  qed
qed

theorem parseDeltaSpec_never_throws_witness:
  "parseDeltaSpec (exampleRuntime [] None) (str ''spec.md'') = Inr emptyPlan
   \<and> parseDeltaSpec (exampleRuntime [] (Some (str ''# Notes''))) (str ''spec.md'') = Inr emptyPlan
   \<and> plan_added (projr (parseDeltaSpec
        (exampleRuntime [] (Some (str ''## ADDED Requirements'' @ [LF]
                                  @ str ''### Requirement: '' @ str ''Login'' @ [LF]
                                  @ str ''### Requirement:''))) (str ''spec.md'')))
     = [\<lparr>req_name = str ''Login'', req_content = str ''### Requirement: '' @ str ''Login'' @ [LF]\<rparr>]"
proof (intro conjI)
  show "parseDeltaSpec (exampleRuntime [] None) (str ''spec.md'') = Inr emptyPlan"
    using parseDeltaSpec_never_throws [where R = "exampleRuntime [] None"
        and filePath = "str ''spec.md''" and content = "[]" and name = "[]"]
    by (simp add: exampleRuntime_def)
  have absent:
    "\<not> sublist (str ''## ADDED Requirements'') (str ''# Notes'')"
    "\<not> sublist (str ''## MODIFIED Requirements'') (str ''# Notes'')"
    "\<not> sublist (str ''## REMOVED Requirements'') (str ''# Notes'')"
    "\<not> sublist (str ''## RENAMED Requirements'') (str ''# Notes'')"
    unfolding indexOf_None_iff [symmetric] by (simp_all add: str_def)
  show "parseDeltaSpec (exampleRuntime [] (Some (str ''# Notes''))) (str ''spec.md'') = Inr emptyPlan"
    using parseDeltaSpec_never_throws [where R = "exampleRuntime [] (Some (str ''# Notes''))"
      and filePath = "str ''spec.md''" and content = "str ''# Notes''" and name = "[]"] absent
    by (simp add: exampleRuntime_def)
  have named: "str ''Login'' \<noteq> []" "\<not> isWhiteSpace (hd (str ''Login''))" "LF \<notin> set (str ''Login'')"
    by (simp_all add: str_def LF_def isWhiteSpace_def isLineTerminator_def)
  show "plan_added (projr (parseDeltaSpec
        (exampleRuntime [] (Some (str ''## ADDED Requirements'' @ [LF]
                                  @ str ''### Requirement: '' @ str ''Login'' @ [LF]
                                  @ str ''### Requirement:''))) (str ''spec.md'')))
     = [\<lparr>req_name = str ''Login'', req_content = str ''### Requirement: '' @ str ''Login'' @ [LF]\<rparr>]"
    using parseDeltaSpec_never_throws [where
        R = "exampleRuntime [] (Some (str ''## ADDED Requirements'' @ [LF]
                                  @ str ''### Requirement: '' @ str ''Login'' @ [LF]
                                  @ str ''### Requirement:''))"
        and filePath = "str ''spec.md''" and content = "[]" and name = "str ''Login''"]
      named
    by (simp add: exampleRuntime_def)
qed

text \<open>
  The claim as stated fails in two ways. A file with a malformed structure, a requirement
  header without a name after a requirement, does not yield the empty plan: the plan
  holds the requirement. A file without a line that is the header of the removed section,
  the sibling \<open>matchH2DeltaSection\<close> finds none, does not yield an empty bucket when the
  header text stands inside another line: the lines after it are read as the section.
\<close>

theorem parseDeltaSpec_malformed_counterexample:
  "parseDeltaSpec
     (exampleRuntime [] (Some (str ''## ADDED Requirements'' @ [LF] @ str ''### Requirement: A''
                               @ [LF] @ str ''### Requirement:'')))
     (str ''spec.md'')
   = Inr \<lparr>plan_added = [\<lparr>req_name = str ''A'', req_content = str ''### Requirement: A'' @ [LF]\<rparr>],
          plan_modified = [], plan_removed = [], plan_renamed = []\<rparr>
   \<and> matchRequirementHeader (str ''### Requirement:'') = None
   \<and> map matchH2DeltaSection
        (split (str ''Do not use ## REMOVED Requirements here.'' @ [LF] @ str ''- keep this'' @ [LF]) LF)
      = [None, None, None]
   \<and> parseDeltaSpec
        (exampleRuntime [] (Some (str ''Do not use ## REMOVED Requirements here.'' @ [LF]
                                  @ str ''- keep this'' @ [LF])))
        (str ''spec.md'')
      = Inr \<lparr>plan_added = [], plan_modified = [], plan_removed = [str ''keep this''],
             plan_renamed = []\<rparr>"
  by (simp add: parseDeltaSpec_def parseDeltaSpec_try_def exampleRuntime_def parseSections_def
      findDeltaSectionContent_def parseRequirementsFromSection_def parseRemovedSection_def
      matchRequirementHeader_def matchH2DeltaSection_def isH3Header_def pushReq_def
      orNull_def trim_def trimStart_def trimEnd_def str_def LF_def Let_def
      isWhiteSpace_def isLineTerminator_def)

section \<open>Rendered bodies\<close>

lemma length_TRUNCATION_NOTICE: "length TRUNCATION_NOTICE = 113"
  by (simp add: TRUNCATION_NOTICE_def str_def)

lemma length_truncationNotice: "length truncationNotice = 77"
  by (simp add: truncationNotice_def str_def)

lemma TRUNCATION_NOTICE_head: "\<exists>rest. TRUNCATION_NOTICE = LF # rest"
  by (simp add: TRUNCATION_NOTICE_def)

lemma lastIndexOf_ge:
  "k < length s \<Longrightarrow> s ! k = c \<Longrightarrow> \<exists>i. lastIndexOf s c = Some i \<and> k \<le> i \<and> i < length s"
proof (induction s arbitrary: k)
  case Nil
  then show ?case by simp
next
  case (Cons x xs)
  show ?case
  proof (cases k)
    case 0
    with Cons.prems have "x = c" by simp
    show ?thesis
    proof (cases "lastIndexOf xs c")
      case None
      with \<open>x = c\<close> 0 show ?thesis by simp
    next
      case (Some i)
      moreover have "i < length xs"
        using Some
      proof (induction xs arbitrary: i)
        case Nil
        then show ?case by simp
      next
        case (Cons y ys)
        then show ?case by (auto split: option.splits if_splits)
      qed
      ultimately show ?thesis using 0 by simp
    qed
  next
    case (Suc k')
    with Cons.prems have "k' < length xs" "xs ! k' = c" by simp_all
    from Cons.IH [OF this] obtain i where "lastIndexOf xs c = Some i" "k' \<le> i" "i < length xs"
      by blast
    with Suc show ?thesis by simp
  qed
qed

lemma truncateBody_length: "length (truncateBody body) \<le> MAX_ISSUE_BODY_LENGTH"
proof (cases "length body \<le> MAX_ISSUE_BODY_LENGTH")
  case True
  then show ?thesis by (simp add: truncateBody_def)
next
  case False
  then show ?thesis
    by (auto simp: truncateBody_def Let_def MAX_ISSUE_BODY_LENGTH_def length_TRUNCATION_NOTICE
        split: option.splits)
qed

lemma prefix_take_append:
  "length p \<le> n \<Longrightarrow> prefix p (take n (p @ r) @ t)"
  by (simp add: prefix_def)

lemma truncateBody_marker:
  assumes "length m + 1 \<le> MAX_ISSUE_BODY_LENGTH - length TRUNCATION_NOTICE"
  shows "prefix (m @ [LF]) (truncateBody (m @ LF # rest))"
proof (cases "length (m @ LF # rest) \<le> MAX_ISSUE_BODY_LENGTH")
  case True
  then show ?thesis by (simp add: truncateBody_def)
next
  case False
  define b where "b = m @ LF # rest"
  define n where "n = MAX_ISSUE_BODY_LENGTH - length TRUNCATION_NOTICE"
  have b: "b = (m @ [LF]) @ rest" by (simp add: b_def)
  have len: "length (m @ [LF]) \<le> n" using assms by (simp add: n_def)
  have long: "n \<le> length b" using False by (simp add: n_def b_def)
  have noCut: "prefix (m @ [LF]) (take n b @ TRUNCATION_NOTICE)"
    unfolding b using len by (rule prefix_take_append)
  have lt: "length (take n b) = n" using long by simp
  have "length m < length (take n b)" using len lt by simp
  moreover have "take n b ! length m = LF"
    using len by (simp add: b_def nth_append)
  ultimately obtain ln where
    ln: "lastIndexOf (take n b) LF = Some ln" "length m \<le> ln" "ln < length (take n b)"
    using lastIndexOf_ge by blast
  have tk: "take ln (take n b) = take ln b" using ln(3) lt by (simp add: min_def)
  have cut: "prefix (m @ [LF]) (take ln (take n b) @ TRUNCATION_NOTICE)"
  proof (cases "ln = length m")
    case True
    have "take ln b = m" using True by (simp add: b_def)
    then show ?thesis using TRUNCATION_NOTICE_head unfolding tk by (auto simp: prefix_def)
  next
    case False
    with ln(2) have "length (m @ [LF]) \<le> ln" by simp
    then have "prefix (m @ [LF]) (take ln ((m @ [LF]) @ rest) @ TRUNCATION_NOTICE)"
      by (rule prefix_take_append)
    then show ?thesis unfolding tk by (simp add: b_def)
  qed
  have "truncateBody b = (if 10 * ln > 8 * n then take ln (take n b) @ TRUNCATION_NOTICE
                          else take n b @ TRUNCATION_NOTICE)"
    using False ln(1) by (simp add: truncateBody_def Let_def b_def n_def)
  then show ?thesis using cut noCut unfolding b_def by simp
qed

lemma truncated_length:
  "length t \<le> M \<Longrightarrow> length (if length b > M then take (M - length t) b @ t else b) \<le> M"
  by auto

lemma formatIssueBody_shape:
  "\<exists>rest. formatIssueBody proposal = truncateBody (generateChangeIdMarker (cp_id proposal) @ LF # rest)"
  unfolding formatIssueBody_def
  by (simp only: append_Cons append_Nil join.simps(3)) (rule exI, rule refl)

lemma formatPRComment_shape:
  "\<exists>rest. formatPRComment up impact =
     (let body = generatePRImpactMarker (si_changeId impact) @ LF # rest
      in if length body > MAX_COMMENT_BODY_LENGTH
         then take (MAX_COMMENT_BODY_LENGTH - length truncationNotice) body @ truncationNotice
         else body)"
  unfolding formatPRComment_def
  by (simp only: append_Cons append_Nil join.simps(3) Let_def) (rule exI, rule refl)

lemma prefix_length: "prefix xs ys \<Longrightarrow> length xs \<le> length ys"
  by (auto simp: prefix_def)

lemma rendered_length:
  "length (formatIssueBody proposal) \<le> 65536 \<and> length (formatPRComment up impact) \<le> 65536"
proof
  obtain rest where i: "formatIssueBody proposal
      = truncateBody (generateChangeIdMarker (cp_id proposal) @ LF # rest)"
    using formatIssueBody_shape by blast
  obtain rest' where c: "formatPRComment up impact =
     (let body = generatePRImpactMarker (si_changeId impact) @ LF # rest'
      in if length body > MAX_COMMENT_BODY_LENGTH
         then take (MAX_COMMENT_BODY_LENGTH - length truncationNotice) body @ truncationNotice
         else body)"
    using formatPRComment_shape by blast
  show "length (formatIssueBody proposal) \<le> 65536"
    using truncateBody_length [of "generateChangeIdMarker (cp_id proposal) @ LF # rest"]
    unfolding i by (simp add: MAX_ISSUE_BODY_LENGTH_def)
  show "length (formatPRComment up impact) \<le> 65536"
    using truncated_length [of truncationNotice MAX_COMMENT_BODY_LENGTH
        "generatePRImpactMarker (si_changeId impact) @ LF # rest'"]
    unfolding c Let_def by (simp add: MAX_COMMENT_BODY_LENGTH_def length_truncationNotice)
qed

lemma marker_line_kept:
  "length (generateChangeIdMarker (cp_id proposal)) + 1
     \<le> MAX_ISSUE_BODY_LENGTH - length TRUNCATION_NOTICE
   \<Longrightarrow> prefix (generateChangeIdMarker (cp_id proposal) @ [LF]) (formatIssueBody proposal)"
  "length (generatePRImpactMarker (si_changeId impact)) + 1
     \<le> MAX_COMMENT_BODY_LENGTH - length truncationNotice
   \<Longrightarrow> prefix (generatePRImpactMarker (si_changeId impact) @ [LF]) (formatPRComment up impact)"
proof -
  obtain rest where i: "formatIssueBody proposal
      = truncateBody (generateChangeIdMarker (cp_id proposal) @ LF # rest)"
    using formatIssueBody_shape by blast
  obtain rest' where c: "formatPRComment up impact =
     (let body = generatePRImpactMarker (si_changeId impact) @ LF # rest'
      in if length body > MAX_COMMENT_BODY_LENGTH
         then take (MAX_COMMENT_BODY_LENGTH - length truncationNotice) body @ truncationNotice
         else body)"
    using formatPRComment_shape by blast
  show "prefix (generateChangeIdMarker (cp_id proposal) @ [LF]) (formatIssueBody proposal)"
    if "length (generateChangeIdMarker (cp_id proposal)) + 1
         \<le> MAX_ISSUE_BODY_LENGTH - length TRUNCATION_NOTICE"
    unfolding i using that by (rule truncateBody_marker)
  show "prefix (generatePRImpactMarker (si_changeId impact) @ [LF]) (formatPRComment up impact)"
    if a: "length (generatePRImpactMarker (si_changeId impact)) + 1
         \<le> MAX_COMMENT_BODY_LENGTH - length truncationNotice"
  proof -
    let ?m = "generatePRImpactMarker (si_changeId impact)"
    have "prefix (?m @ [LF])
            (take (MAX_COMMENT_BODY_LENGTH - length truncationNotice) ((?m @ [LF]) @ rest')
             @ truncationNotice)"
      by (rule prefix_take_append) (use a in simp)
    then show ?thesis unfolding c by (simp add: Let_def)
  qed
qed

lemma marker_fits:
  "length cid \<le> 65396 \<Longrightarrow>
   length (generateChangeIdMarker cid) + 1 \<le> MAX_ISSUE_BODY_LENGTH - length TRUNCATION_NOTICE"
  "length cid \<le> 65396 \<Longrightarrow>
   length (generatePRImpactMarker cid) + 1 \<le> MAX_COMMENT_BODY_LENGTH - length truncationNotice"
  by (simp_all add: generateChangeIdMarker_def generatePRImpactMarker_def str_def
      MAX_ISSUE_BODY_LENGTH_def MAX_COMMENT_BODY_LENGTH_def length_TRUNCATION_NOTICE
      length_truncationNotice)

text \<open>
  Claim C6. The rendered issue body and the rendered comment are never longer than 65,536
  units, also when the rendering was longer and the truncation notice has been appended.
  Each begins with the marker line of its change id: for every change id of at most 65,396
  units, and in general whenever the marker line with its line break fits into the room
  left for content, which is the ceiling less the length of the truncation notice. The
  change ids that reach the renderers are names of directory entries and remainders of
  branch names, which are far shorter.
\<close>

theorem rendered_body_bounds:
  "length (formatIssueBody proposal) \<le> 65536
   \<and> length (formatPRComment up impact) \<le> 65536
   \<and> (length (generateChangeIdMarker (cp_id proposal)) + 1
         \<le> MAX_ISSUE_BODY_LENGTH - length TRUNCATION_NOTICE
       \<longrightarrow> prefix (generateChangeIdMarker (cp_id proposal) @ [LF]) (formatIssueBody proposal))
   \<and> (length (generatePRImpactMarker (si_changeId impact)) + 1
         \<le> MAX_COMMENT_BODY_LENGTH - length truncationNotice
       \<longrightarrow> prefix (generatePRImpactMarker (si_changeId impact) @ [LF]) (formatPRComment up impact))
   \<and> (length (cp_id proposal) \<le> 65396
       \<longrightarrow> prefix (generateChangeIdMarker (cp_id proposal) @ [LF]) (formatIssueBody proposal))
   \<and> (length (si_changeId impact) \<le> 65396
       \<longrightarrow> prefix (generatePRImpactMarker (si_changeId impact) @ [LF]) (formatPRComment up impact))"
  using rendered_length [of proposal up impact]
    marker_line_kept(1) [where proposal = proposal]
    marker_line_kept(2) [where impact = impact and up = up]
    marker_fits [of "cp_id proposal"] marker_fits [of "si_changeId impact"]
  by blast

theorem rendered_body_bounds_witness:
  "length (formatIssueBody exampleChange) \<le> 65536
   \<and> length (formatPRComment asciiUpper exampleImpact) \<le> 65536
   \<and> prefix (generateChangeIdMarker (str ''add-feature'') @ [LF]) (formatIssueBody exampleChange)
   \<and> prefix (generatePRImpactMarker (str ''add-feature'') @ [LF]) (formatPRComment asciiUpper exampleImpact)"
proof -
  have ids: "cp_id exampleChange = str ''add-feature''" "si_changeId exampleImpact = str ''add-feature''"
    by (simp_all add: exampleChange_def exampleImpact_def)
  have "length (str ''add-feature'') \<le> 65396"
    by (simp add: str_def)
  moreover have "length (generateChangeIdMarker (str ''add-feature'')) + 1
          \<le> MAX_ISSUE_BODY_LENGTH - length TRUNCATION_NOTICE"
       "length (generatePRImpactMarker (str ''add-feature'')) + 1
          \<le> MAX_COMMENT_BODY_LENGTH - length truncationNotice"
    by (simp_all add: generateChangeIdMarker_def generatePRImpactMarker_def str_def
        MAX_ISSUE_BODY_LENGTH_def MAX_COMMENT_BODY_LENGTH_def length_TRUNCATION_NOTICE
        length_truncationNotice)
  ultimately show ?thesis
    using rendered_body_bounds [of exampleChange asciiUpper exampleImpact]
    unfolding ids by blast
qed

text \<open>
  The bound on the length of the change id is needed for the marker line only: a marker
  longer than the ceiling cannot be the beginning of a text within the ceiling. No name of
  a directory entry and no branch name is that long.
\<close>

lemma marker_longer_than_ceiling:
  "\<not> prefix (generateChangeIdMarker longId)
       (formatIssueBody \<lparr>cp_id = longId, cp_path = [], cp_proposalContent = [],
          cp_tasksContent = None, cp_affectedSpecs = [], cp_isArchived = False\<rparr>)
   \<and> \<not> prefix (generatePRImpactMarker longId)
       (formatPRComment asciiUpper
          \<lparr>si_changeId = longId, si_mode = Proposal, si_isArchived = False,
           si_capabilities = [], si_changes = [],
           si_counts = \<lparr>added = 0, modified = 0, removed = 0, renamed = 0, total = 0\<rparr>\<rparr>)"
proof -
  let ?p = "\<lparr>cp_id = longId, cp_path = [], cp_proposalContent = [],
          cp_tasksContent = None, cp_affectedSpecs = [], cp_isArchived = False\<rparr>"
  let ?i = "\<lparr>si_changeId = longId, si_mode = Proposal, si_isArchived = False,
           si_capabilities = [], si_changes = [],
           si_counts = \<lparr>added = 0, modified = 0, removed = 0, renamed = 0, total = 0\<rparr>\<rparr>"
  have l: "length (formatIssueBody ?p) \<le> 65536" "length (formatPRComment asciiUpper ?i) \<le> 65536"
    using rendered_length [of ?p asciiUpper ?i] by simp_all
  have "length (generateChangeIdMarker longId) > 65536" "length (generatePRImpactMarker longId) > 65536"
    by (simp_all add: generateChangeIdMarker_def generatePRImpactMarker_def longId_def str_def)
  with l show ?thesis by (auto dest!: prefix_length)
qed

end
